theory Spec2Isabelle
  imports Complex_Main "HOL-Library.Multiset"
begin

section \<open>JavaScript strings and numbers\<close>

text \<open>
  A JavaScript string is modelled as a \<open>string\<close>: a list of code units, each below 256.
  A JavaScript \<open>number\<close> is modelled by \<open>jsnum\<close>: a finite value is an exact rational, next to
  the two infinities and NaN. The rounding of a decimal literal to the nearest double, overflow,
  underflow and the sign of zero are abstracted: a finite number stands for the decimal fraction
  its rendering denotes.
\<close>

datatype jsnum = Fin rat | PInf | NInf | NaN

definition dquote :: char where
  "dquote = CHR 0x22"

definition bslash :: char where
  "bslash = CHR 0x5C"

definition newline :: char where
  "newline = CHR 0x0A"

definition isDigit :: "char \<Rightarrow> bool" where
  "isDigit c = (48 \<le> (of_char c :: nat) \<and> (of_char c :: nat) \<le> 57)"

definition digitVal :: "char \<Rightarrow> nat" where
  "digitVal c = (of_char c :: nat) - 48"

definition digitChar :: "nat \<Rightarrow> char" where
  "digitChar d = ''0123456789'' ! d"

text \<open>White space of \<open>String.prototype.trim\<close> and of the regular expression class \<open>\s\<close>,
  among the code units below 256: TAB, LF, VT, FF, CR, SP and NBSP.\<close>

definition isSpace :: "char \<Rightarrow> bool" where
  "isSpace c = ((of_char c :: nat) \<in> {9, 10, 11, 12, 13, 32, 160})"

definition trim :: "string \<Rightarrow> string" where
  "trim s = rev (dropWhile isSpace (rev (dropWhile isSpace s)))"

fun startsWith :: "string \<Rightarrow> string \<Rightarrow> bool" where
  "startsWith s [] = True"
| "startsWith [] (p # ps) = False"
| "startsWith (c # cs) (p # ps) = (c = p \<and> startsWith cs ps)"

definition endsWith :: "string \<Rightarrow> string \<Rightarrow> bool" where
  "endsWith s p = startsWith (rev s) (rev p)"

definition padEnd :: "nat \<Rightarrow> string \<Rightarrow> string" where
  "padEnd w s = s @ replicate (w - length s) CHR '' ''"

text \<open>\<open>xs.join(sep)\<close>.\<close>

fun join :: "string \<Rightarrow> string list \<Rightarrow> string" where
  "join sep [] = []"
| "join sep [x] = x"
| "join sep (x # y # ys) = x @ sep @ join sep (y # ys)"

text \<open>\<open>s.split(c)\<close> for a separator of one code unit: never the empty list.\<close>

fun splitOn :: "char \<Rightarrow> string \<Rightarrow> string list" where
  "splitOn c [] = [[]]"
| "splitOn c (x # xs) =
     (if x = c then [] # splitOn c xs
      else (case splitOn c xs of [] \<Rightarrow> [[x]] | w # ws \<Rightarrow> (x # w) # ws))"

text \<open>\<open>s.split(/\s+/)\<close>: the separators are the maximal runs of white space; a leading or
  trailing run leaves an empty first or last piece.\<close>

fun splitWs :: "string \<Rightarrow> string list" where
  "splitWs [] = [[]]"
| "splitWs (x # xs) =
     (if isSpace x then
        (if xs \<noteq> [] \<and> isSpace (hd xs) then splitWs xs else [] # splitWs xs)
      else (case splitWs xs of [] \<Rightarrow> [[x]] | w # ws \<Rightarrow> (x # w) # ws))"

subsection \<open>Number to string\<close>

fun showNat :: "nat \<Rightarrow> string" where
  "showNat n = (if n < 10 then [digitChar n] else showNat (n div 10) @ [digitChar (n mod 10)])"

declare showNat.simps [simp del]

text \<open>The digits after the decimal point of \<open>x\<close>, \<open>0 \<le> x < 1\<close>, by long division. A double is
  a dyadic rational with at most 1074 binary places, so 1074 digits exhaust every double.\<close>

fun fracDigits :: "nat \<Rightarrow> rat \<Rightarrow> string" where
  "fracDigits 0 x = []"
| "fracDigits (Suc n) x =
     (if x = 0 then []
      else digitChar (nat \<lfloor>x * 10\<rfloor>) # fracDigits n (x * 10 - of_int \<lfloor>x * 10\<rfloor>))"

definition dropTrailingZeros :: "string \<Rightarrow> string" where
  "dropTrailingZeros s = rev (dropWhile (\<lambda>c. c = CHR ''0'') (rev s))"

text \<open>The mantissa of the exponent notation: \<open>d\<close> or \<open>d.ddd\<close>.\<close>

definition mantissa :: "string \<Rightarrow> string" where
  "mantissa ds = (case ds of [] \<Rightarrow> [] | [d] \<Rightarrow> [d] | d # r \<Rightarrow> d # CHR ''.'' # r)"

text \<open>\<open>Number.prototype.toString\<close> on a positive finite value: decimal notation from
  \<open>10\<^sup>-\<^sup>6\<close> up to \<open>10\<^sup>2\<^sup>1\<close>, exponent notation outside.\<close>

definition posToString :: "rat \<Rightarrow> string" where
  "posToString q =
     (let ip = showNat (nat \<lfloor>q\<rfloor>);
          fd = fracDigits 1074 (q - of_int \<lfloor>q\<rfloor>) in
      if 10 ^ 21 \<le> q then
        mantissa (dropTrailingZeros (ip @ fd)) @ ''e+'' @ showNat (length ip - 1)
      else if q < 1 / 10 ^ 6 then
        mantissa (dropWhile (\<lambda>c. c = CHR ''0'') fd) @ ''e-''
          @ showNat (length (takeWhile (\<lambda>c. c = CHR ''0'') fd) + 1)
      else if fd = [] then ip
      else ip @ ''.'' @ fd)"

fun numToString :: "jsnum \<Rightarrow> string" where
  "numToString NaN = ''NaN''"
| "numToString PInf = ''Infinity''"
| "numToString NInf = ''-Infinity''"
| "numToString (Fin r) =
     (if r = 0 then ''0''
      else if r < 0 then ''-'' @ posToString (- r)
      else posToString r)"

text \<open>\<open>n.toFixed(6)\<close>: the integer nearest to \<open>|n| * 10\<^sup>6\<close> (the larger one of two), written
  with at least seven digits and a point before the last six; the rendering of \<open>toString\<close> for
  a value that is not finite or reaches \<open>10\<^sup>2\<^sup>1\<close>.\<close>

definition toFixed6 :: "jsnum \<Rightarrow> string" where
  "toFixed6 n =
     (case n of
        Fin r \<Rightarrow>
          if 10 ^ 21 \<le> \<bar>r\<bar> then numToString n
          else
            (let m = showNat (nat \<lfloor>\<bar>r\<bar> * 10 ^ 6 + 1 / 2\<rfloor>);
                 m' = replicate (7 - length m) CHR ''0'' @ m in
             (if r < 0 then ''-'' else [])
               @ take (length m' - 6) m' @ ''.'' @ drop (length m' - 6) m')
      | _ \<Rightarrow> numToString n)"

text \<open>\<open>Math.floor\<close>.\<close>

fun mathFloor :: "jsnum \<Rightarrow> jsnum" where
  "mathFloor (Fin r) = Fin (of_int \<lfloor>r\<rfloor>)"
| "mathFloor n = n"

text \<open>\<open>x || 0\<close> on a number: NaN and zero are falsy.\<close>

fun orZero :: "jsnum \<Rightarrow> jsnum" where
  "orZero NaN = Fin 0"
| "orZero n = n"

subsection \<open>The encoder's formatters\<close>

text \<open>\<open>fixed.replace(/(\.\d*?)0+$/, '$1')\<close>: at the first point that is followed by digits only,
  the last of them a zero, the trailing zeros go.\<close>

fun replaceTrailingZeros :: "string \<Rightarrow> string" where
  "replaceTrailingZeros [] = []"
| "replaceTrailingZeros (c # cs) =
     (if c = CHR ''.'' \<and> cs \<noteq> [] \<and> list_all isDigit cs \<and> last cs = CHR ''0''
      then c # dropTrailingZeros cs
      else c # replaceTrailingZeros cs)"

text \<open>\<open>result.match(/\.\d$/)\<close>.\<close>

definition endsPointDigit :: "string \<Rightarrow> bool" where
  "endsPointDigit s =
     (case rev s of d # p # _ \<Rightarrow> isDigit d \<and> p = CHR ''.'' | _ \<Rightarrow> False)"

definition formatFloat :: "jsnum \<Rightarrow> nat \<Rightarrow> string" where
  "formatFloat n minWidth =
     (let str = numToString n;
          result =
            (if CHR ''.'' \<in> set str then
               (let fixed = toFixed6 n;
                    result = replaceTrailingZeros fixed in
                if endsWith result ''.'' then result @ ''00''
                else if endsPointDigit result then result @ ''0''
                else result)
             else toFixed6 n) in
      if minWidth > 0 then padEnd minWidth result else result)"

definition formatTripleFloat :: "jsnum \<times> jsnum \<times> jsnum \<Rightarrow> string" where
  "formatTripleFloat arr =
     (case arr of (a, b, c) \<Rightarrow> join '' '' (map (\<lambda>n. formatFloat n 0) [a, b, c]))"

definition formatSixFloat :: "jsnum \<times> jsnum \<times> jsnum \<times> jsnum \<times> jsnum \<times> jsnum \<Rightarrow> string" where
  "formatSixFloat arr =
     (case arr of (a, b, c, d, e, f) \<Rightarrow>
        join '' '' (map (\<lambda>n. formatFloat n 0) [a, b, c, d, e, f]))"

definition formatQuadInt :: "jsnum \<times> jsnum \<times> jsnum \<times> jsnum \<Rightarrow> string" where
  "formatQuadInt arr =
     (case arr of (a, b, c, d) \<Rightarrow>
        join '' '' (map (\<lambda>n. numToString (mathFloor n)) [a, b, c, d]))"

definition formatInt :: "jsnum \<Rightarrow> nat \<Rightarrow> string" where
  "formatInt n minWidth =
     (let result = numToString (mathFloor n) in
      if minWidth > 0 then padEnd minWidth result else result)"

definition formatString :: "string \<Rightarrow> nat \<Rightarrow> string" where
  "formatString s minWidth =
     (let result = [dquote] @ s @ [dquote] in
      if minWidth > 0 then padEnd minWidth result else result)"

definition formatGuid :: "string \<Rightarrow> nat \<Rightarrow> string" where
  "formatGuid g minWidth = (if minWidth > 0 then padEnd minWidth g else g)"


section \<open>The data model (types/cinema.ts)\<close>

type_synonym triple = "jsnum \<times> jsnum \<times> jsnum"
type_synonym six = "jsnum \<times> jsnum \<times> jsnum \<times> jsnum \<times> jsnum \<times> jsnum"
type_synonym quad = "jsnum \<times> jsnum \<times> jsnum \<times> jsnum"

record shot =
  sh_id :: string
  sh_index :: jsnum
  sh_name :: string
  sh_nextShot :: jsnum
  sh_skipShot :: jsnum
  sh_maxTime :: jsnum
  sh_time :: jsnum

record syncPoint =
  sp_id :: string
  sp_index :: jsnum
  sp_name :: string
  sp_type :: jsnum
  sp_action :: jsnum
  sp_offset :: jsnum
  sp_shot :: jsnum
  sp_fromEnd :: jsnum
  sp_absoluteTimeStart :: jsnum

datatype actionType = camera | dialog | pop | fade | charAnim | objAnim | trigger

text \<open>\<open>ACTION_TYPE_REVERSE[typeNum]\<close>: the keys of the table are the seven codes.\<close>

definition ACTION_TYPE_REVERSE :: "jsnum \<Rightarrow> actionType option" where
  "ACTION_TYPE_REVERSE n =
     (if n = Fin 2 then Some charAnim
      else if n = Fin 4 then Some camera
      else if n = Fin 5 then Some dialog
      else if n = Fin 6 then Some pop
      else if n = Fin 8 then Some fade
      else if n = Fin 9 then Some objAnim
      else if n = Fin 10 then Some trigger
      else None)"

record baseAction =
  ac_id :: string
  ac_index :: jsnum
  ac_name :: string
  ac_shot :: jsnum
  ac_offset :: jsnum
  ac_duration :: jsnum
  ac_syncPoint :: jsnum
  ac_finishShot :: jsnum
  ac_defaultLength :: jsnum

record cameraFields =
  cam_cameraType :: jsnum
  cam_target :: string
  cam_relative :: jsnum
  cam_startOrient :: triple
  cam_endOrient :: triple
  cam_startOffset :: triple
  cam_endOffset :: triple
  cam_targetOffset :: triple
  cam_startFOV :: jsnum
  cam_endFOV :: jsnum
  cam_transitionPop :: jsnum
  cam_loop :: jsnum
  cam_endSyncPoint :: jsnum

record dialogFields =
  dlg_speaker :: string
  dlg_sample :: string
  dlg_forceEnd :: jsnum
  dlg_positional :: jsnum

record popFields =
  pop_object :: string
  pop_location :: string
  pop_facing :: string
  pop_setFacing :: jsnum
  pop_anim :: string

record fadeFields =
  fd_fxType :: jsnum
  fd_magnitude :: jsnum
  fd_frequency :: jsnum
  fd_rolling :: jsnum
  fd_fadeout :: jsnum
  fd_color :: quad
  fd_targetVal :: jsnum

record charAnimFields =
  ca_character :: string
  ca_animName :: string
  ca_length :: jsnum
  ca_animGroup :: string
  ca_animatedInPlace :: jsnum
  ca_loops :: jsnum
  ca_animsToPlay :: jsnum

record objAnimFields =
  oa_object :: string
  oa_animName :: string
  oa_startAnimating :: jsnum
  oa_looping :: jsnum
  oa_hideWhenDone :: jsnum
  oa_setToEndOnSkip :: jsnum

text \<open>The union \<open>Action\<close>: the base fields and the fields of one of the seven variants. The
  discriminator \<open>type\<close> and the code \<open>typeNum\<close> are literal types of each variant, so they are
  functions of the constructor.\<close>

datatype action =
    CameraAction baseAction cameraFields
  | DialogAction baseAction dialogFields
  | PopAction baseAction popFields
  | FadeAction baseAction fadeFields
  | CharAnimAction baseAction charAnimFields
  | ObjAnimAction baseAction objAnimFields
  | TriggerAction baseAction string

fun ac_type :: "action \<Rightarrow> actionType" where
  "ac_type (CameraAction b v) = camera"
| "ac_type (DialogAction b v) = dialog"
| "ac_type (PopAction b v) = pop"
| "ac_type (FadeAction b v) = fade"
| "ac_type (CharAnimAction b v) = charAnim"
| "ac_type (ObjAnimAction b v) = objAnim"
| "ac_type (TriggerAction b v) = trigger"

fun ac_typeNum :: "action \<Rightarrow> jsnum" where
  "ac_typeNum (CameraAction b v) = Fin 4"
| "ac_typeNum (DialogAction b v) = Fin 5"
| "ac_typeNum (PopAction b v) = Fin 6"
| "ac_typeNum (FadeAction b v) = Fin 8"
| "ac_typeNum (CharAnimAction b v) = Fin 2"
| "ac_typeNum (ObjAnimAction b v) = Fin 9"
| "ac_typeNum (TriggerAction b v) = Fin 10"

fun ac_base :: "action \<Rightarrow> baseAction" where
  "ac_base (CameraAction b v) = b"
| "ac_base (DialogAction b v) = b"
| "ac_base (PopAction b v) = b"
| "ac_base (FadeAction b v) = b"
| "ac_base (CharAnimAction b v) = b"
| "ac_base (ObjAnimAction b v) = b"
| "ac_base (TriggerAction b v) = b"

record keyframe =
  posX :: jsnum
  posY :: jsnum
  posZ :: jsnum
  oriX :: jsnum
  oriY :: jsnum
  oriZ :: jsnum
  oriW :: jsnum

record cameraPath =
  cp_id :: string
  cp_guid :: string
  cp_pos :: triple
  cp_orient :: triple
  cp_scale :: triple
  cp_bBox :: six
  cp_loops :: jsnum
  cp_range :: triple
  cp_min :: triple
  cp_playSpeed :: jsnum
  cp_camPosOffset :: triple
  cp_camRotOffset :: triple
  cp_lookatGuid :: string
  cp_lookatOffset :: triple
  cp_fromCenter :: jsnum
  cp_interpolate :: jsnum
  cp_lookspring :: jsnum
  cp_keyframes :: "keyframe list"

record cinemaProperties =
  doesCameraColl :: jsnum
  doesCameraFade :: jsnum
  lightChannels :: jsnum
  objectFlags :: jsnum
  scriptResource :: string
  initialPos :: triple
  orientation :: triple
  localBoundingBox :: six
  objSaveFlag :: jsnum
  repeatable :: jsnum
  popAtEnd :: jsnum
  cinematic :: jsnum
  pr_time :: jsnum
  initialShot :: jsnum
  bilboInvisible :: jsnum
  hasIntroTrans :: jsnum
  hasOutroTrans :: jsnum
  skippable :: jsnum
  isDeathCinema :: jsnum
  forceNoWeapon :: jsnum
  forceUseStick :: jsnum
  forceUseSting :: jsnum
  letterbox :: jsnum
  disableControl :: jsnum
  bypassQueue :: jsnum
  lowPriority :: jsnum
  subtitleInBox :: jsnum

record cinemaObject =
  guid :: string
  objName :: string
  duration :: jsnum
  properties :: cinemaProperties
  shots :: "shot list"
  syncPoints :: "syncPoint list"
  actions :: "action list"
  participants :: "string list"
  cameraPaths :: "cameraPath list"

definition createDefaultCinemaProperties :: cinemaProperties where
  "createDefaultCinemaProperties =
     \<lparr> doesCameraColl = Fin 1, doesCameraFade = Fin 1, lightChannels = Fin 1,
       objectFlags = Fin 432, scriptResource = [],
       initialPos = (Fin 0, Fin 0, Fin 0), orientation = (Fin 0, Fin 0, Fin 0),
       localBoundingBox = (Fin (- 1), Fin (- 1), Fin (- 1), Fin 1, Fin 1, Fin 1),
       objSaveFlag = Fin 1, repeatable = Fin 1, popAtEnd = Fin 0, cinematic = Fin 1,
       pr_time = Fin 0, initialShot = Fin 0, bilboInvisible = Fin 0, hasIntroTrans = Fin 0,
       hasOutroTrans = Fin 0, skippable = Fin 1, isDeathCinema = Fin 0, forceNoWeapon = Fin 0,
       forceUseStick = Fin 0, forceUseSting = Fin 0, letterbox = Fin 1, disableControl = Fin 0,
       bypassQueue = Fin 0, lowPriority = Fin 0, subtitleInBox = Fin 0 \<rparr>"

definition createDefaultKeyframe :: keyframe where
  "createDefaultKeyframe =
     \<lparr> posX = Fin 0, posY = Fin 0, posZ = Fin 0,
       oriX = Fin 0, oriY = Fin 0, oriZ = Fin 0, oriW = Fin 0 \<rparr>"


section \<open>The decoder (utils/parser.ts)\<close>

subsection \<open>String to number\<close>

definition digitsToNat :: "string \<Rightarrow> nat" where
  "digitsToNat ds = foldl (\<lambda>a c. 10 * a + digitVal c) 0 ds"

text \<open>The exponent part of a decimal literal: \<open>e\<close> or \<open>E\<close>, an optional sign and at least one
  digit; anything else is not part of the literal and counts as exponent 0.\<close>

definition exponentPart :: "string \<Rightarrow> int" where
  "exponentPart s =
     (case s of
        [] \<Rightarrow> 0
      | c # t \<Rightarrow>
          if c = CHR ''e'' \<or> c = CHR ''E'' then
            (case t of
               [] \<Rightarrow> 0
             | d # u \<Rightarrow>
                 if d = CHR ''-'' then
                   (if takeWhile isDigit u = [] then 0
                    else - int (digitsToNat (takeWhile isDigit u)))
                 else if d = CHR ''+'' then int (digitsToNat (takeWhile isDigit u))
                 else int (digitsToNat (takeWhile isDigit t)))
          else 0)"

definition scale10 :: "rat \<Rightarrow> int \<Rightarrow> rat" where
  "scale10 x e = (if 0 \<le> e then x * 10 ^ nat e else x / 10 ^ nat (- e))"

text \<open>\<open>Number.parseFloat\<close>: leading white space is skipped, then the longest prefix that is a
  decimal literal is read; NaN when there is none.\<close>

definition parseUnsigned :: "string \<Rightarrow> rat option" where
  "parseUnsigned s =
     (let ip = takeWhile isDigit s;
          r1 = dropWhile isDigit s;
          fp = (case r1 of [] \<Rightarrow> [] | c # t \<Rightarrow> if c = CHR ''.'' then takeWhile isDigit t else []);
          r2 = (case r1 of [] \<Rightarrow> [] | c # t \<Rightarrow> if c = CHR ''.'' then dropWhile isDigit t else r1)
      in if ip = [] \<and> fp = [] then None
         else Some (scale10 (of_nat (digitsToNat (ip @ fp)) / 10 ^ length fp) (exponentPart r2)))"

definition parseFloat :: "string \<Rightarrow> jsnum" where
  "parseFloat val =
     (let s = dropWhile isSpace val;
          neg = (s \<noteq> [] \<and> hd s = CHR ''-'');
          u = (if s \<noteq> [] \<and> (hd s = CHR ''-'' \<or> hd s = CHR ''+'') then tl s else s)
      in if startsWith u ''Infinity'' then (if neg then NInf else PInf)
         else (case parseUnsigned u of
                 None \<Rightarrow> NaN
               | Some q \<Rightarrow> Fin (if neg then - q else q)))"

definition parseString :: "string \<Rightarrow> string" where
  "parseString val =
     (let r = (if val \<noteq> [] \<and> hd val = dquote then tl val else val)
      in if r \<noteq> [] \<and> last r = dquote then butlast r else r)"

definition parseFloatVal :: "string \<Rightarrow> jsnum" where
  "parseFloatVal val = orZero (parseFloat val)"

definition parseIntVal :: "string \<Rightarrow> jsnum" where
  "parseIntVal val = orZero (mathFloor (parseFloat val))"

text \<open>\<open>parts[j] || 0\<close>.\<close>

definition nthOrZero :: "jsnum list \<Rightarrow> nat \<Rightarrow> jsnum" where
  "nthOrZero parts j = (if j < length parts then orZero (parts ! j) else Fin 0)"

definition parseTriple :: "string \<Rightarrow> triple" where
  "parseTriple val =
     (let parts = map (\<lambda>v. orZero (parseFloat v)) (splitOn CHR '' '' val)
      in (nthOrZero parts 0, nthOrZero parts 1, nthOrZero parts 2))"

definition parseSix :: "string \<Rightarrow> six" where
  "parseSix val =
     (let parts = map (\<lambda>v. orZero (parseFloat v)) (splitOn CHR '' '' val)
      in (nthOrZero parts 0, nthOrZero parts 1, nthOrZero parts 2,
          nthOrZero parts 3, nthOrZero parts 4, nthOrZero parts 5))"

definition parseQuad :: "string \<Rightarrow> quad" where
  "parseQuad val =
     (let parts = map (\<lambda>v. orZero (mathFloor (parseFloat v))) (splitOn CHR '' '' val)
      in (nthOrZero parts 0, nthOrZero parts 1, nthOrZero parts 2, nthOrZero parts 3))"

subsection \<open>The field-schema binder\<close>

datatype error = TypeError

text \<open>\<open>headerLine.match(/\{([^}]+)\}/)\<close>: the group of the leftmost match, if any.\<close>

fun matchBraces :: "string \<Rightarrow> string option" where
  "matchBraces [] = None"
| "matchBraces (c # cs) =
     (if c = CHR ''{'' \<and> takeWhile (\<lambda>x. x \<noteq> CHR ''}'') cs \<noteq> []
         \<and> dropWhile (\<lambda>x. x \<noteq> CHR ''}'') cs \<noteq> []
      then Some (takeWhile (\<lambda>x. x \<noteq> CHR ''}'') cs)
      else matchBraces cs)"

text \<open>The scan of the value line: the characters left, \<open>current\<close>, \<open>inQuotes\<close> and the tokens
  so far.\<close>

definition pushToken :: "string \<Rightarrow> string list \<Rightarrow> string list" where
  "pushToken current tokens = (if trim current \<noteq> [] then tokens @ [trim current] else tokens)"

fun scanTokens :: "string \<Rightarrow> string \<Rightarrow> bool \<Rightarrow> string list \<Rightarrow> string list" where
  "scanTokens [] current inQuotes tokens = pushToken current tokens"
| "scanTokens (c # cs) current inQuotes tokens =
     (if c = dquote then scanTokens cs (current @ [c]) (\<not> inQuotes) tokens
      else if c = CHR '' '' \<and> \<not> inQuotes then scanTokens cs [] inQuotes (pushToken current tokens)
      else scanTokens cs (current @ [c]) inQuotes tokens)"

definition tokenize :: "string \<Rightarrow> string list" where
  "tokenize valueLine = scanTokens (trim valueLine) [] False []"

text \<open>\<open>tokens[j] || '0'\<close>.\<close>

definition tokenOr0 :: "string list \<Rightarrow> nat \<Rightarrow> string" where
  "tokenOr0 tokens j = (if j < length tokens \<and> tokens ! j \<noteq> [] then tokens ! j else ''0'')"

text \<open>\<open>field.split(':')[0]\<close> and \<open>field.split(':')[1] || ''\<close>.\<close>

definition fieldNameOf :: "string \<Rightarrow> string" where
  "fieldNameOf field = hd (splitOn CHR '':'' field)"

definition fieldTypeOf :: "string \<Rightarrow> string" where
  "fieldTypeOf field = (case splitOn CHR '':'' field of _ # t # _ \<Rightarrow> t | _ \<Rightarrow> [])"

text \<open>The loop over the fields. The object \<open>values\<close> is a map from its own property names to
  their values.\<close>

fun bindFields ::
  "string list \<Rightarrow> string list \<Rightarrow> nat \<Rightarrow> (string \<rightharpoonup> string) \<Rightarrow> (string \<rightharpoonup> string)" where
  "bindFields [] tokens tokenIndex values = values"
| "bindFields (field # rest) tokens tokenIndex values =
     (if tokenIndex \<ge> length tokens then values
      else
        (let fieldName = fieldNameOf field;
             fieldType = fieldTypeOf field in
         if fieldType = ''fff'' then
           bindFields rest tokens (tokenIndex + 3)
             (values(fieldName \<mapsto>
                tokens ! tokenIndex @ '' '' @ tokenOr0 tokens (tokenIndex + 1)
                  @ '' '' @ tokenOr0 tokens (tokenIndex + 2)))
         else if fieldType = ''ffffff'' then
           bindFields rest tokens (tokenIndex + 6)
             (values(fieldName \<mapsto>
                tokens ! tokenIndex @ '' '' @ tokenOr0 tokens (tokenIndex + 1)
                  @ '' '' @ tokenOr0 tokens (tokenIndex + 2)
                  @ '' '' @ tokenOr0 tokens (tokenIndex + 3)
                  @ '' '' @ tokenOr0 tokens (tokenIndex + 4)
                  @ '' '' @ tokenOr0 tokens (tokenIndex + 5)))
         else if fieldType = ''dddd'' then
           bindFields rest tokens (tokenIndex + 4)
             (values(fieldName \<mapsto>
                tokens ! tokenIndex @ '' '' @ tokenOr0 tokens (tokenIndex + 1)
                  @ '' '' @ tokenOr0 tokens (tokenIndex + 2)
                  @ '' '' @ tokenOr0 tokens (tokenIndex + 3)))
         else
           bindFields rest tokens (tokenIndex + 1)
             (values(fieldName \<mapsto> tokens ! tokenIndex))))"

text \<open>A line past the end of \<open>lines\<close> is \<open>undefined\<close>; \<open>headerLine.match\<close> and
  \<open>valueLine.trim()\<close> on it throw a TypeError. The value line is not touched when the header
  line does not match.\<close>

definition parseValues :: "string option \<Rightarrow> string option \<Rightarrow> error + (string \<rightharpoonup> string)" where
  "parseValues headerLine valueLine =
     (case headerLine of
        None \<Rightarrow> Inl TypeError
      | Some h \<Rightarrow>
          (case matchBraces h of
             None \<Rightarrow> Inr Map.empty
           | Some g \<Rightarrow>
               (case valueLine of
                  None \<Rightarrow> Inl TypeError
                | Some v \<Rightarrow> Inr (bindFields (splitWs (trim g)) (tokenize v) 0 Map.empty))))"


subsection \<open>The sections of a record\<close>

text \<open>\<open>lines[j]\<close>, which is \<open>undefined\<close> past the end.\<close>

definition nthOpt :: "'a list \<Rightarrow> nat \<Rightarrow> 'a option" where
  "nthOpt xs j = (if j < length xs then Some (xs ! j) else None)"

text \<open>\<open>vals[key] || dflt\<close>: the default stands in for a missing and for an empty value.\<close>

definition orElse :: "string option \<Rightarrow> string \<Rightarrow> string" where
  "orElse v dflt = (case v of None \<Rightarrow> dflt | Some x \<Rightarrow> if x = [] then dflt else x)"

text \<open>\<open>crypto.randomUUID()\<close>: the source of identifiers is a sequence of strings, and the
  decoder's state counts how many it has drawn.\<close>

type_synonym uuidSource = "nat \<Rightarrow> string"

definition emptyCinema :: cinemaObject where
  "emptyCinema =
     \<lparr> guid = [], objName = [], duration = Fin 0,
       properties = createDefaultCinemaProperties,
       shots = [], syncPoints = [], actions = [], participants = [], cameraPaths = [] \<rparr>"

text \<open>\<open>line.match(/\[ Shot(\d+) :/)\<close> and its siblings: the digits of the leftmost match
  anywhere in the line.\<close>

definition matchIndexedAt :: "string \<Rightarrow> string \<Rightarrow> string option" where
  "matchIndexedAt nm s =
     (if startsWith s (''[ '' @ nm)
         \<and> takeWhile isDigit (drop (length nm + 2) s) \<noteq> []
         \<and> startsWith (dropWhile isDigit (drop (length nm + 2) s)) '' :''
      then Some (takeWhile isDigit (drop (length nm + 2) s))
      else None)"

fun matchIndexed :: "string \<Rightarrow> string \<Rightarrow> string option" where
  "matchIndexed nm [] = None"
| "matchIndexed nm (c # cs) =
     (case matchIndexedAt nm (c # cs) of
        Some ds \<Rightarrow> Some ds
      | None \<Rightarrow> matchIndexed nm cs)"

definition decodeCinemaHeader :: "(string \<rightharpoonup> string) \<Rightarrow> cinemaObject \<Rightarrow> cinemaObject" where
  "decodeCinemaHeader vals cinema =
     cinema
     \<lparr> guid := parseString (orElse (vals ''GUID'') []),
       objName := parseString (orElse (vals ''ObjName'') []),
       duration := parseFloatVal (orElse (vals ''Duration'') ''0''),
       properties :=
         \<lparr> doesCameraColl = parseIntVal (orElse (vals ''DoesCameraColl'') ''1''),
           doesCameraFade = parseIntVal (orElse (vals ''DoesCameraFade'') ''1''),
           lightChannels = parseIntVal (orElse (vals ''LightChannels'') ''1''),
           objectFlags = parseIntVal (orElse (vals ''ObjectFlags'') ''432''),
           scriptResource = parseString (orElse (vals ''ScriptResource'') []),
           initialPos = parseTriple (orElse (vals ''InitialPos'') ''0 0 0''),
           orientation = parseTriple (orElse (vals ''Orientation'') ''0 0 0''),
           localBoundingBox = parseSix (orElse (vals ''LocalBoundingBox'') ''-1 -1 -1 1 1 1''),
           objSaveFlag = parseIntVal (orElse (vals ''ObjSaveFlag'') ''1''),
           repeatable = parseIntVal (orElse (vals ''Repeatable'') ''1''),
           popAtEnd = parseIntVal (orElse (vals ''PopAtEnd'') ''0''),
           cinematic = parseIntVal (orElse (vals ''Cinematic'') ''1''),
           pr_time = parseFloatVal (orElse (vals ''Time'') ''0''),
           initialShot = parseIntVal (orElse (vals ''InitialShot'') ''0''),
           bilboInvisible = parseIntVal (orElse (vals ''BilboInvisible'') ''0''),
           hasIntroTrans = parseIntVal (orElse (vals ''HasIntroTrans'') ''0''),
           hasOutroTrans = parseIntVal (orElse (vals ''HasOutroTrans'') ''0''),
           skippable = parseIntVal (orElse (vals ''Skippable'') ''1''),
           isDeathCinema = parseIntVal (orElse (vals ''IsDeathCinema'') ''0''),
           forceNoWeapon = parseIntVal (orElse (vals ''ForceNoWeapon'') ''0''),
           forceUseStick = parseIntVal (orElse (vals ''ForceUseStick'') ''0''),
           forceUseSting = parseIntVal (orElse (vals ''ForceUseSting'') ''0''),
           letterbox = parseIntVal (orElse (vals ''Letterbox'') ''1''),
           disableControl = parseIntVal (orElse (vals ''DisableControl'') ''0''),
           bypassQueue = parseIntVal (orElse (vals ''BypassQueue'') ''0''),
           lowPriority = parseIntVal (orElse (vals ''LowPriority'') ''0''),
           subtitleInBox = parseIntVal (orElse (vals ''SubtitleInBox'') ''0'') \<rparr> \<rparr>"

definition decodeShot :: "string \<Rightarrow> jsnum \<Rightarrow> (string \<rightharpoonup> string) \<Rightarrow> shot" where
  "decodeShot uuid shotIndex vals =
     (let prefix = ''Shot'' @ numToString shotIndex @ [bslash] in
      \<lparr> sh_id = uuid,
        sh_index = shotIndex,
        sh_name = parseString (orElse (vals (prefix @ ''Name'')) (''Shot '' @ numToString shotIndex)),
        sh_nextShot = parseIntVal (orElse (vals (prefix @ ''NextShot'')) ''0''),
        sh_skipShot = parseIntVal (orElse (vals (prefix @ ''SkipShot'')) ''0''),
        sh_maxTime = parseFloatVal (orElse (vals (prefix @ ''MaxTime'')) ''10''),
        sh_time = parseFloatVal (orElse (vals (prefix @ ''Time'')) ''0'') \<rparr>)"

definition decodeSyncPoint :: "string \<Rightarrow> jsnum \<Rightarrow> (string \<rightharpoonup> string) \<Rightarrow> syncPoint" where
  "decodeSyncPoint uuid syncIndex vals =
     (let prefix = ''SyncPoint'' @ numToString syncIndex @ [bslash] in
      \<lparr> sp_id = uuid,
        sp_index = syncIndex,
        sp_name = parseString (orElse (vals (prefix @ ''Name'')) (''Sync '' @ numToString syncIndex)),
        sp_type = parseIntVal (orElse (vals (prefix @ ''Type'')) ''0''),
        sp_action = parseIntVal (orElse (vals (prefix @ ''Action'')) ''0''),
        sp_offset = parseFloatVal (orElse (vals (prefix @ ''Offset'')) ''0''),
        sp_shot = parseIntVal (orElse (vals (prefix @ ''Shot'')) ''0''),
        sp_fromEnd = parseIntVal (orElse (vals (prefix @ ''FromEnd'')) ''1''),
        sp_absoluteTimeStart =
          parseFloatVal (orElse (vals (prefix @ ''AbsoluteTimeStart'')) ''0'') \<rparr>)"

definition decodeCamera :: "string \<Rightarrow> (string \<rightharpoonup> string) \<Rightarrow> cameraFields" where
  "decodeCamera prefix vals =
     \<lparr> cam_cameraType = parseIntVal (orElse (vals (prefix @ ''CameraType'')) ''0''),
       cam_target = orElse (vals (prefix @ ''Target'')) ''00000000_00000000'',
       cam_relative = parseIntVal (orElse (vals (prefix @ ''Relative'')) ''0''),
       cam_startOrient = parseTriple (orElse (vals (prefix @ ''StartOrient'')) ''0 0 0''),
       cam_endOrient = parseTriple (orElse (vals (prefix @ ''EndOrient'')) ''0 0 0''),
       cam_startOffset = parseTriple (orElse (vals (prefix @ ''StartOffset'')) ''0 0 0''),
       cam_endOffset = parseTriple (orElse (vals (prefix @ ''EndOffset'')) ''0 0 0''),
       cam_targetOffset = parseTriple (orElse (vals (prefix @ ''TargetOffset'')) ''0 0 0''),
       cam_startFOV = parseFloatVal (orElse (vals (prefix @ ''StartFOV'')) ''1.256637''),
       cam_endFOV = parseFloatVal (orElse (vals (prefix @ ''EndFOV'')) ''1.256637''),
       cam_transitionPop = parseIntVal (orElse (vals (prefix @ ''TransitionPop'')) ''0''),
       cam_loop = parseIntVal (orElse (vals (prefix @ ''Loop'')) ''0''),
       cam_endSyncPoint = parseIntVal (orElse (vals (prefix @ ''EndSyncPoint'')) ''0'') \<rparr>"

definition decodeDialog :: "string \<Rightarrow> (string \<rightharpoonup> string) \<Rightarrow> dialogFields" where
  "decodeDialog prefix vals =
     \<lparr> dlg_speaker = orElse (vals (prefix @ ''Speaker'')) ''ABCABCAB_CABCABC0'',
       dlg_sample = parseString (orElse (vals (prefix @ ''Sample'')) []),
       dlg_forceEnd = parseIntVal (orElse (vals (prefix @ ''ForceEnd'')) ''1''),
       dlg_positional = parseIntVal (orElse (vals (prefix @ ''Positional'')) ''0'') \<rparr>"

definition decodePop :: "string \<Rightarrow> (string \<rightharpoonup> string) \<Rightarrow> popFields" where
  "decodePop prefix vals =
     \<lparr> pop_object = orElse (vals (prefix @ ''Object'')) ''ABCABCAB_CABCABC0'',
       pop_location = orElse (vals (prefix @ ''Location'')) ''00000000_00000000'',
       pop_facing = orElse (vals (prefix @ ''Facing'')) ''00000000_00000000'',
       pop_setFacing = parseIntVal (orElse (vals (prefix @ ''SetFacing'')) ''1''),
       pop_anim = parseString (orElse (vals (prefix @ ''Anim'')) []) \<rparr>"

definition decodeFade :: "string \<Rightarrow> (string \<rightharpoonup> string) \<Rightarrow> fadeFields" where
  "decodeFade prefix vals =
     \<lparr> fd_fxType = parseIntVal (orElse (vals (prefix @ ''FXType'')) ''1''),
       fd_magnitude = parseFloatVal (orElse (vals (prefix @ ''Magnitude'')) ''0.15''),
       fd_frequency = parseFloatVal (orElse (vals (prefix @ ''Frequency'')) ''20''),
       fd_rolling = parseIntVal (orElse (vals (prefix @ ''Rolling'')) ''0''),
       fd_fadeout = parseIntVal (orElse (vals (prefix @ ''Fadeout'')) ''0''),
       fd_color = parseQuad (orElse (vals (prefix @ ''Color'')) ''0 0 0 255''),
       fd_targetVal = parseFloatVal (orElse (vals (prefix @ ''Target'')) ''0'') \<rparr>"

definition decodeCharAnim :: "string \<Rightarrow> (string \<rightharpoonup> string) \<Rightarrow> charAnimFields" where
  "decodeCharAnim prefix vals =
     \<lparr> ca_character = orElse (vals (prefix @ ''Character'')) ''00000000_00000000'',
       ca_animName = parseString (orElse (vals (prefix @ ''AnimName'')) []),
       ca_length = parseFloatVal (orElse (vals (prefix @ ''Length'')) ''1''),
       ca_animGroup = parseString (orElse (vals (prefix @ ''AnimGroup'')) []),
       ca_animatedInPlace = parseIntVal (orElse (vals (prefix @ ''AnimatedInPlace'')) ''1''),
       ca_loops = parseIntVal (orElse (vals (prefix @ ''Loops'')) ''0''),
       ca_animsToPlay = parseIntVal (orElse (vals (prefix @ ''AnimsToPlay'')) ''0'') \<rparr>"

definition decodeObjAnim :: "string \<Rightarrow> (string \<rightharpoonup> string) \<Rightarrow> objAnimFields" where
  "decodeObjAnim prefix vals =
     \<lparr> oa_object = orElse (vals (prefix @ ''Object'')) ''00000000_00000000'',
       oa_animName = parseString (orElse (vals (prefix @ ''AnimName'')) []),
       oa_startAnimating = parseIntVal (orElse (vals (prefix @ ''StartAnimating'')) ''1''),
       oa_looping = parseIntVal (orElse (vals (prefix @ ''Looping'')) ''0''),
       oa_hideWhenDone = parseIntVal (orElse (vals (prefix @ ''HideWhenDone'')) ''1''),
       oa_setToEndOnSkip = parseIntVal (orElse (vals (prefix @ ''SetToEndOnSkip'')) ''1'') \<rparr>"

text \<open>The Action branch. \<open>actionType\<close> is one of the seven variants, an unknown code having
  been replaced by \<open>camera\<close>, so the \<open>default:\<close> arm of the source's \<open>switch\<close> is never taken
  and has no counterpart in the \<open>case\<close>.\<close>

definition decodeAction :: "string \<Rightarrow> jsnum \<Rightarrow> (string \<rightharpoonup> string) \<Rightarrow> action" where
  "decodeAction uuid actionIndex vals =
     (let prefix = ''Action'' @ numToString actionIndex @ [bslash];
          typeNum = parseIntVal (orElse (vals (prefix @ ''Type'')) ''4'');
          actionType = (case ACTION_TYPE_REVERSE typeNum of Some t \<Rightarrow> t | None \<Rightarrow> camera);
          baseAction =
            \<lparr> ac_id = uuid,
              ac_index = actionIndex,
              ac_name =
                parseString (orElse (vals (prefix @ ''Name'')) (''Action '' @ numToString actionIndex)),
              ac_shot = parseIntVal (orElse (vals (prefix @ ''Shot'')) ''0''),
              ac_offset = parseFloatVal (orElse (vals (prefix @ ''Offset'')) ''0''),
              ac_duration = parseFloatVal (orElse (vals (prefix @ ''Duration'')) ''1''),
              ac_syncPoint = parseIntVal (orElse (vals (prefix @ ''SyncPoint'')) ''0''),
              ac_finishShot = parseIntVal (orElse (vals (prefix @ ''FinishShot'')) ''1''),
              ac_defaultLength = parseFloatVal (orElse (vals (prefix @ ''DefaultLength'')) ''1'') \<rparr>
      in case actionType of
           camera \<Rightarrow> CameraAction baseAction (decodeCamera prefix vals)
         | dialog \<Rightarrow> DialogAction baseAction (decodeDialog prefix vals)
         | pop \<Rightarrow> PopAction baseAction (decodePop prefix vals)
         | fade \<Rightarrow> FadeAction baseAction (decodeFade prefix vals)
         | charAnim \<Rightarrow> CharAnimAction baseAction (decodeCharAnim prefix vals)
         | objAnim \<Rightarrow> ObjAnimAction baseAction (decodeObjAnim prefix vals)
         | trigger \<Rightarrow>
             TriggerAction baseAction (parseString (orElse (vals (prefix @ ''TriggerName'')) [])))"

definition decodeCameraPath :: "string \<Rightarrow> (string \<rightharpoonup> string) \<Rightarrow> cameraPath" where
  "decodeCameraPath uuid vals =
     \<lparr> cp_id = uuid,
       cp_guid = parseString (orElse (vals ''GUID'') []),
       cp_pos = parseTriple (orElse (vals ''Pos'') ''0 0 0''),
       cp_orient = parseTriple (orElse (vals ''Orient'') ''0 0 0''),
       cp_scale = parseTriple (orElse (vals ''Scale'') ''1 1 1''),
       cp_bBox = parseSix (orElse (vals ''BBox'') ''0 0 0 0 0 0''),
       cp_loops = parseIntVal (orElse (vals ''Loops'') ''1''),
       cp_range = parseTriple (orElse (vals ''Range'') ''0 0 0''),
       cp_min = parseTriple (orElse (vals ''Min'') ''0 0 0''),
       cp_playSpeed = parseFloatVal (orElse (vals ''PlaySpeed'') ''1''),
       cp_camPosOffset = parseTriple (orElse (vals ''CamPosOffset'') ''0 0 0''),
       cp_camRotOffset = parseTriple (orElse (vals ''CamRotOffset'') ''0 0 0''),
       cp_lookatGuid = orElse (vals ''LookatGuid'') ''ABCABCAB_CABCABC0'',
       cp_lookatOffset = parseTriple (orElse (vals ''LookatOffset'') ''0 0 0''),
       cp_fromCenter = parseIntVal (orElse (vals ''FromCenter'') ''0''),
       cp_interpolate = parseIntVal (orElse (vals ''Interpolate'') ''1''),
       cp_lookspring = parseIntVal (orElse (vals ''Lookspring'') ''0''),
       cp_keyframes = [] \<rparr>"

definition decodeKeyframe :: "string \<Rightarrow> keyframe" where
  "decodeKeyframe kfLine =
     (let parts = map parseIntVal (splitWs kfLine) in
      \<lparr> posX = nthOrZero parts 0, posY = nthOrZero parts 1, posZ = nthOrZero parts 2,
        oriX = nthOrZero parts 3, oriY = nthOrZero parts 4, oriZ = nthOrZero parts 5,
        oriW = nthOrZero parts 6 \<rparr>)"


subsection \<open>The line cursor\<close>

text \<open>The inner loop of the Participants branch: the cursor and the participants so far.\<close>

function participantsLoop :: "string list \<Rightarrow> nat \<Rightarrow> string list \<Rightarrow> nat \<times> string list" where
  "participantsLoop lines i ps =
     (if i < length lines then
        (let pLine = trim (lines ! i) in
         if startsWith pLine ''['' \<or> pLine = [] then (i, ps)
         else participantsLoop lines (i + 1)
                (if trim pLine \<noteq> [] \<and> \<not> startsWith (trim pLine) ''{''
                 then ps @ [trim pLine] else ps))
      else (i, ps))"
  by pat_completeness auto
termination
  by (relation "measure (\<lambda>(lines, i, ps). length lines - i)") auto

declare participantsLoop.simps [simp del]

text \<open>The inner loop of the Keyframes section.\<close>

function keyframesLoop :: "string list \<Rightarrow> nat \<Rightarrow> keyframe list \<Rightarrow> nat \<times> keyframe list" where
  "keyframesLoop lines i kfs =
     (if i < length lines then
        (let kfLine = trim (lines ! i) in
         if startsWith kfLine ''['' \<or> kfLine = [] then (i, kfs)
         else keyframesLoop lines (i + 1)
                (if \<not> startsWith kfLine ''{'' then kfs @ [decodeKeyframe kfLine] else kfs))
      else (i, kfs))"
  by pat_completeness auto
termination
  by (relation "measure (\<lambda>(lines, i, kfs). length lines - i)") auto

declare keyframesLoop.simps [simp del]

text \<open>One turn of the \<open>while\<close> loop of \<open>parseSingleCinema\<close>, entered with \<open>i < lines.length\<close>:
  it returns the record and the cursor, or goes on with a new cursor, the record as updated
  and the count of identifiers drawn; or it throws.\<close>

datatype turn = Return cinemaObject nat nat | Continue nat cinemaObject nat

definition loopBody ::
  "uuidSource \<Rightarrow> string list \<Rightarrow> nat \<Rightarrow> cinemaObject \<Rightarrow> nat \<Rightarrow> error + turn" where
  "loopBody uuids lines i cinema k =
     (let line = trim (lines ! i);
          vals = parseValues (nthOpt lines (i + 1)) (nthOpt lines (i + 2)) in
      if startsWith line ''[ Cinema :'' \<and> guid cinema \<noteq> [] then Inr (Return cinema i k)
      else if startsWith line ''[ Cinema :'' then
        (case vals of
           Inl e \<Rightarrow> Inl e
         | Inr v \<Rightarrow> Inr (Continue (i + 3) (decodeCinemaHeader v cinema) k))
      else
        (case matchIndexed ''Shot'' line of
           Some ds \<Rightarrow>
             (case vals of
                Inl e \<Rightarrow> Inl e
              | Inr v \<Rightarrow>
                  Inr (Continue (i + 3)
                    (cinema\<lparr> shots := shots cinema @ [decodeShot (uuids k) (parseIntVal ds) v] \<rparr>)
                    (k + 1)))
         | None \<Rightarrow>
        (case matchIndexed ''SyncPoint'' line of
           Some ds \<Rightarrow>
             (case vals of
                Inl e \<Rightarrow> Inl e
              | Inr v \<Rightarrow>
                  Inr (Continue (i + 3)
                    (cinema\<lparr> syncPoints :=
                       syncPoints cinema @ [decodeSyncPoint (uuids k) (parseIntVal ds) v] \<rparr>)
                    (k + 1)))
         | None \<Rightarrow>
        (case matchIndexed ''Action'' line of
           Some ds \<Rightarrow>
             (case vals of
                Inl e \<Rightarrow> Inl e
              | Inr v \<Rightarrow>
                  Inr (Continue (i + 3)
                    (cinema\<lparr> actions := actions cinema @ [decodeAction (uuids k) (parseIntVal ds) v] \<rparr>)
                    (k + 1)))
         | None \<Rightarrow>
        (if startsWith line ''[ Participants :'' then
           (case participantsLoop lines (i + 2) (participants cinema) of
              (i', ps) \<Rightarrow> Inr (Continue i' (cinema\<lparr> participants := ps \<rparr>) k))
         else if startsWith line ''[ CameraPath :'' then
           (case vals of
              Inl e \<Rightarrow> Inl e
            | Inr v \<Rightarrow>
                (case (if i + 3 < length lines
                          \<and> startsWith (trim (lines ! (i + 3))) ''[ Keyframes :''
                       then keyframesLoop lines (i + 5) []
                       else (i + 3, [])) of
                   (i', kfs) \<Rightarrow>
                     Inr (Continue i'
                       (cinema\<lparr> cameraPaths := cameraPaths cinema @
                          [(decodeCameraPath (uuids k) v)
                             \<lparr> cp_keyframes :=
                                 (if kfs = [] then [createDefaultKeyframe] else kfs) \<rparr>] \<rparr>)
                       (k + 1))))
         else Inr (Continue (i + 1) cinema k))))))"

lemma participantsLoop_ge: "participantsLoop lines i ps = (i', ps') \<Longrightarrow> i \<le> i'"
proof (induction lines i ps rule: participantsLoop.induct)
  case (1 lines i ps)
  show ?case
  proof (cases "i < length lines \<and> \<not> (startsWith (trim (lines ! i)) ''['' \<or> trim (lines ! i) = [])")
    case True
    then have "i + 1 \<le> i'"
      using "1.IH" [OF _ refl] "1.prems"
      by (subst (asm) participantsLoop.simps) (simp add: Let_def)
    then show ?thesis by simp
  next
    case False
    then show ?thesis
      using "1.prems" by (subst (asm) participantsLoop.simps) (auto simp: Let_def split: if_splits)
  qed
qed

lemma keyframesLoop_ge: "keyframesLoop lines i kfs = (i', kfs') \<Longrightarrow> i \<le> i'"
proof (induction lines i kfs rule: keyframesLoop.induct)
  case (1 lines i kfs)
  show ?case
  proof (cases "i < length lines \<and> \<not> (startsWith (trim (lines ! i)) ''['' \<or> trim (lines ! i) = [])")
    case True
    then have "i + 1 \<le> i'"
      using "1.IH" [OF _ refl] "1.prems"
      by (subst (asm) keyframesLoop.simps) (simp add: Let_def)
    then show ?thesis by simp
  next
    case False
    then show ?thesis
      using "1.prems" by (subst (asm) keyframesLoop.simps) (auto simp: Let_def split: if_splits)
  qed
qed

lemma loopBody_progress:
  "loopBody uuids lines i cinema k = Inr (Continue i' cinema' k') \<Longrightarrow> i < i'"
  unfolding loopBody_def Let_def
  by (auto split: if_splits sum.splits option.splits prod.splits
           dest: participantsLoop_ge keyframesLoop_ge)

text \<open>The \<open>while\<close> loop of \<open>parseSingleCinema\<close>.\<close>

function parseLoop ::
  "uuidSource \<Rightarrow> string list \<Rightarrow> nat \<Rightarrow> cinemaObject \<Rightarrow> nat \<Rightarrow> error + (cinemaObject \<times> nat \<times> nat)" where
  "parseLoop uuids lines i cinema k =
     (if i < length lines then
        (case loopBody uuids lines i cinema k of
           Inl e \<Rightarrow> Inl e
         | Inr (Return c endIndex k') \<Rightarrow> Inr (c, endIndex, k')
         | Inr (Continue i' c k') \<Rightarrow> parseLoop uuids lines i' c k')
      else Inr (cinema, i, k))"
  by pat_completeness auto
termination
  by (relation "measure (\<lambda>(uuids, lines, i, cinema, k). length lines - i)")
     (auto dest: loopBody_progress)

declare parseLoop.simps [simp del]

definition parseSingleCinema ::
  "uuidSource \<Rightarrow> string list \<Rightarrow> nat \<Rightarrow> nat \<Rightarrow> error + (cinemaObject \<times> nat \<times> nat)" where
  "parseSingleCinema uuids lines startIndex k = parseLoop uuids lines startIndex emptyCinema k"


lemma parseLoop_ge:
  "parseLoop uuids lines i cinema k = Inr (c, endIndex, k') \<Longrightarrow> i \<le> endIndex"
proof (induction uuids lines i cinema k rule: parseLoop.induct)
  case (1 uuids lines i cinema k)
  show ?case
  proof (cases "i < length lines")
    case False
    then show ?thesis
      using "1.prems" by (subst (asm) parseLoop.simps) simp
  next
    case True
    show ?thesis
    proof (cases "loopBody uuids lines i cinema k")
      case (Inl e)
      then show ?thesis
        using True "1.prems" by (subst (asm) parseLoop.simps) simp
    next
      case (Inr t)
      show ?thesis
      proof (cases t)
        case (Return c0 e0 k0)
        moreover have "e0 = i"
          using Inr Return unfolding loopBody_def Let_def
          by (auto split: if_splits sum.splits option.splits prod.splits)
        ultimately show ?thesis
          using True Inr "1.prems" by (subst (asm) parseLoop.simps) simp
      next
        case (Continue i0 c0 k0)
        then have "i < i0"
          using Inr loopBody_progress by blast
        moreover have "i0 \<le> endIndex"
          using "1.IH" [OF True Inr Continue] True Inr Continue "1.prems"
          by (subst (asm) parseLoop.simps) simp
        ultimately show ?thesis by simp
      qed
    qed
  qed
qed

lemma guid_emptyCinema: "guid emptyCinema = []"
  by (simp add: emptyCinema_def)

lemma parseSingleCinema_progress:
  assumes "parseSingleCinema uuids lines i k = Inr (c, endIndex, k')"
    and "i < length lines"
    and "startsWith (trim (lines ! i)) ''[ Cinema :''"
  shows "i < endIndex"
proof -
  have body: "loopBody uuids lines i emptyCinema k =
      (case parseValues (nthOpt lines (i + 1)) (nthOpt lines (i + 2)) of
         Inl e \<Rightarrow> Inl e
       | Inr v \<Rightarrow> Inr (Continue (i + 3) (decodeCinemaHeader v emptyCinema) k))"
    using assms(3) by (simp add: loopBody_def guid_emptyCinema)
  show ?thesis
  proof (cases "parseValues (nthOpt lines (i + 1)) (nthOpt lines (i + 2))")
    case (Inl e)
    then show ?thesis
      using assms(1,2) body unfolding parseSingleCinema_def
      by (subst (asm) parseLoop.simps) simp
  next
    case (Inr v)
    then have "parseLoop uuids lines (i + 3) (decodeCinemaHeader v emptyCinema) k
        = Inr (c, endIndex, k')"
      using assms(1,2) body unfolding parseSingleCinema_def
      by (subst (asm) parseLoop.simps) simp
    then have "i + 3 \<le> endIndex" by (rule parseLoop_ge)
    then show ?thesis by simp
  qed
qed

text \<open>The \<open>while\<close> loop of \<open>parseCinemaFile\<close>.\<close>

function fileLoop ::
  "uuidSource \<Rightarrow> string list \<Rightarrow> nat \<Rightarrow> cinemaObject list \<Rightarrow> nat \<Rightarrow> error + cinemaObject list" where
  "fileLoop uuids lines i cinemas k =
     (if i < length lines then
        (let line = trim (lines ! i) in
         if startsWith line ''//'' \<or> line = [] then fileLoop uuids lines (i + 1) cinemas k
         else if startsWith line ''[ Cinema :'' then
           (case parseSingleCinema uuids lines i k of
              Inl e \<Rightarrow> Inl e
            | Inr (cinema, endIndex, k') \<Rightarrow> fileLoop uuids lines endIndex (cinemas @ [cinema]) k')
         else fileLoop uuids lines (i + 1) cinemas k)
      else Inr cinemas)"
  by pat_completeness auto
termination
proof (relation "measure (\<lambda>(uuids, lines, i, cinemas, k). length lines - i)", goal_cases)
  case 1
  show ?case by simp
next
  case 2
  then show ?case by simp
next
  case (3 uuids lines i cinemas k line res cinema rest endIndex k')
  then have "parseSingleCinema uuids lines i k = Inr (cinema, endIndex, k')"
    by simp
  moreover have "startsWith (trim (lines ! i)) ''[ Cinema :''"
    using 3(2,4) by simp
  ultimately have "i < endIndex"
    using 3(1) parseSingleCinema_progress by blast
  with 3(1) show ?case by simp
next
  case 4
  then show ?case by simp
qed

declare fileLoop.simps [simp del]

text \<open>\<open>parseCinemaFile\<close>: an error thrown in the \<open>try\<close> block is caught and the result is the
  empty list. \<open>uuids\<close> is the sequence of identifiers that \<open>crypto.randomUUID\<close> yields during
  the call.\<close>

definition parseCinemaFile :: "uuidSource \<Rightarrow> string \<Rightarrow> cinemaObject list" where
  "parseCinemaFile uuids content =
     (case fileLoop uuids (splitOn newline content) 0 [] 0 of
        Inl e \<Rightarrow> []
      | Inr cinemas \<Rightarrow> cinemas)"

section \<open>The encoder (the exporter)\<close>

text \<open>Each pushed line of the source is a definition of its own, named after its section;
  \<open>exportCinemaLines\<close> is the array \<open>lines\<close> and \<open>exportCinema\<close> joins it. An index \<open>i\<close> of
  \<open>forEach\<close> and a \<open>length\<close> are numbers, rendered by \<open>numToString\<close>.\<close>

definition cinemaSchemaLine :: string where
  "cinemaSchemaLine =
     '' { GUID:s              DoesCameraColl:d DoesCameraFade:d LightChannels:d ObjectFlags:d ScriptResource:s InitialPos:fff             Orientation:fff            LocalBoundingBox:ffffff                                  ObjSaveFlag:d ObjName:s                  Repeatable:d PopAtEnd:d Cinematic:d Time:f   Duration:f nShots:d nSyncPoints:d nActions:d nParticipants:d InitialShot:d BilboInvisible:d HasIntroTrans:d HasOutroTrans:d Skippable:d IsDeathCinema:d ForceNoWeapon:d ForceUseStick:d ForceUseSting:d Letterbox:d DisableControl:d BypassQueue:d LowPriority:d SubtitleInBox:d }''"

definition cinemaValueLine :: "cinemaObject \<Rightarrow> string" where
  "cinemaValueLine cinema =
     (let p = properties cinema in
       ''   '' @ (formatString (guid cinema) 18) @ '' '' @ (formatInt (doesCameraColl p) 16)
         @ '' '' @ (formatInt (doesCameraFade p) 16) @ '' '' @ (formatInt (lightChannels p) 15)
         @ '' '' @ (formatInt (objectFlags p) 13) @ '' ''
         @ (formatString (scriptResource p) 16) @ '' ''
         @ (padEnd 26 (formatTripleFloat (initialPos p))) @ '' ''
         @ (padEnd 26 (formatTripleFloat (orientation p))) @ '' ''
         @ (padEnd 52 (formatSixFloat (localBoundingBox p))) @ '' ''
         @ (formatInt (objSaveFlag p) 13) @ '' '' @ (formatString (objName cinema) 26) @ '' ''
         @ (formatInt (repeatable p) 12) @ '' '' @ (formatInt (popAtEnd p) 10) @ '' ''
         @ (formatInt (cinematic p) 11) @ '' '' @ (formatFloat (pr_time p) 8) @ '' ''
         @ (formatFloat (duration cinema) 10) @ '' ''
         @ (formatInt (Fin (of_nat (length (shots cinema)))) 8) @ '' ''
         @ (formatInt (Fin (of_nat (length (syncPoints cinema)))) 13) @ '' ''
         @ (formatInt (Fin (of_nat (length (actions cinema)))) 10) @ '' ''
         @ (formatInt (Fin (of_nat (length (participants cinema)))) 15) @ '' ''
         @ (formatInt (initialShot p) 13) @ '' '' @ (formatInt (bilboInvisible p) 16) @ '' ''
         @ (formatInt (hasIntroTrans p) 15) @ '' '' @ (formatInt (hasOutroTrans p) 15) @ '' ''
         @ (formatInt (skippable p) 11) @ '' '' @ (formatInt (isDeathCinema p) 15) @ '' ''
         @ (formatInt (forceNoWeapon p) 15) @ '' '' @ (formatInt (forceUseStick p) 15) @ '' ''
         @ (formatInt (forceUseSting p) 15) @ '' '' @ (formatInt (letterbox p) 11) @ '' ''
         @ (formatInt (disableControl p) 16) @ '' '' @ (formatInt (bypassQueue p) 13) @ '' ''
         @ (formatInt (lowPriority p) 13) @ '' '' @ (formatInt (subtitleInBox p) 15))"

definition shotSectionLine :: "nat \<Rightarrow> string" where
  "shotSectionLine i =
     ''[ Shot'' @ (numToString (Fin (of_nat i))) @ '' : 1 ]''"

definition shotSchemaLine :: "nat \<Rightarrow> string" where
  "shotSchemaLine i =
     '' { Shot'' @ (numToString (Fin (of_nat i))) @ [bslash] @ ''Name:s Shot''
       @ (numToString (Fin (of_nat i))) @ [bslash] @ ''NextShot:d Shot''
       @ (numToString (Fin (of_nat i))) @ [bslash] @ ''SkipShot:d Shot''
       @ (numToString (Fin (of_nat i))) @ [bslash] @ ''MaxTime:f Shot''
       @ (numToString (Fin (of_nat i))) @ [bslash] @ ''Time:f }''"

definition shotValueLine :: "shot \<Rightarrow> string" where
  "shotValueLine sh =
     ''   '' @ (formatString (sh_name sh) 12) @ '' '' @ (formatInt (sh_nextShot sh) 16) @ '' ''
       @ (formatInt (sh_skipShot sh) 16) @ '' '' @ (formatFloat (sh_maxTime sh) 14) @ '' ''
       @ (formatFloat (sh_time sh) 12)"

definition syncPointSectionLine :: "nat \<Rightarrow> string" where
  "syncPointSectionLine i =
     ''[ SyncPoint'' @ (numToString (Fin (of_nat i))) @ '' : 1 ]''"

definition syncPointSchemaLine :: "nat \<Rightarrow> string" where
  "syncPointSchemaLine i =
     '' { SyncPoint'' @ (numToString (Fin (of_nat i))) @ [bslash] @ ''Name:s SyncPoint''
       @ (numToString (Fin (of_nat i))) @ [bslash] @ ''Type:d SyncPoint''
       @ (numToString (Fin (of_nat i))) @ [bslash] @ ''Action:d SyncPoint''
       @ (numToString (Fin (of_nat i))) @ [bslash] @ ''Offset:f SyncPoint''
       @ (numToString (Fin (of_nat i))) @ [bslash] @ ''Shot:d SyncPoint''
       @ (numToString (Fin (of_nat i))) @ [bslash] @ ''FromEnd:d SyncPoint''
       @ (numToString (Fin (of_nat i))) @ [bslash] @ ''AbsoluteTimeStart:f }''"

definition syncPointValueLine :: "syncPoint \<Rightarrow> string" where
  "syncPointValueLine sp =
     ''   '' @ (formatString (sp_name sp) 17) @ '' '' @ (formatInt (sp_type sp) 17) @ '' ''
       @ (formatInt (sp_action sp) 19) @ '' '' @ (formatFloat (sp_offset sp) 19) @ '' ''
       @ (formatInt (sp_shot sp) 17) @ '' '' @ (formatInt (sp_fromEnd sp) 20) @ '' ''
       @ (formatFloat (sp_absoluteTimeStart sp) 23)"


definition cameraSchemaLine :: "string \<Rightarrow> string" where
  "cameraSchemaLine prefix =
     '' { '' @ prefix @ [bslash] @ ''Name:s '' @ prefix @ [bslash] @ ''Type:d '' @ prefix
       @ [bslash] @ ''Shot:d '' @ prefix @ [bslash] @ ''Offset:f '' @ prefix @ [bslash]
       @ ''Duration:f '' @ prefix @ [bslash] @ ''SyncPoint:d '' @ prefix @ [bslash]
       @ ''FinishShot:d '' @ prefix @ [bslash] @ ''DefaultLength:f '' @ prefix @ [bslash]
       @ ''CameraType:d '' @ prefix @ [bslash] @ ''Target:g  '' @ prefix @ [bslash]
       @ ''Relative:d '' @ prefix @ [bslash] @ ''StartOrient:fff    '' @ prefix @ [bslash]
       @ ''EndOrient:fff      '' @ prefix @ [bslash] @ ''StartOffset:fff    '' @ prefix
       @ [bslash] @ ''EndOffset:fff      '' @ prefix @ [bslash] @ ''TargetOffset:fff   ''
       @ prefix @ [bslash] @ ''StartFOV:f '' @ prefix @ [bslash] @ ''EndFOV:f '' @ prefix
       @ [bslash] @ ''TransitionPop:d '' @ prefix @ [bslash] @ ''Loop:d '' @ prefix @ [bslash]
       @ ''EndSyncPoint:d }''"

definition cameraValueLine :: "action \<Rightarrow> baseAction \<Rightarrow> cameraFields \<Rightarrow> string" where
  "cameraValueLine action b v =
     ''   '' @ [dquote] @ (ac_name b) @ [dquote] @ ''    '' @ (numToString (ac_typeNum action))
       @ ''              '' @ (numToString (ac_shot b)) @ ''              ''
       @ (formatFloat (ac_offset b) 0) @ ''         '' @ (formatFloat (ac_duration b) 0)
       @ ''               '' @ (numToString (ac_syncPoint b)) @ ''                   ''
       @ (numToString (ac_finishShot b)) @ ''                    ''
       @ (formatFloat (ac_defaultLength b) 0) @ ''                ''
       @ (numToString (cam_cameraType v)) @ ''                    '' @ (cam_target v) @ '' ''
       @ (numToString (cam_relative v)) @ ''                  ''
       @ (formatTripleFloat (cam_startOrient v)) @ '' ''
       @ (formatTripleFloat (cam_endOrient v)) @ '' ''
       @ (formatTripleFloat (cam_startOffset v)) @ '' ''
       @ (formatTripleFloat (cam_endOffset v)) @ '' ''
       @ (formatTripleFloat (cam_targetOffset v)) @ '' '' @ (formatFloat (cam_startFOV v) 0)
       @ ''           '' @ (formatFloat (cam_endFOV v) 0) @ ''         ''
       @ (numToString (cam_transitionPop v)) @ ''                       ''
       @ (numToString (cam_loop v)) @ ''              '' @ (numToString (cam_endSyncPoint v))
       @ ''                      ''"


definition dialogSchemaLine :: "string \<Rightarrow> string" where
  "dialogSchemaLine prefix =
     '' { '' @ prefix @ [bslash] @ ''Name:s  '' @ prefix @ [bslash] @ ''Type:d '' @ prefix
       @ [bslash] @ ''Shot:d '' @ prefix @ [bslash] @ ''Offset:f '' @ prefix @ [bslash]
       @ ''Duration:f '' @ prefix @ [bslash] @ ''SyncPoint:d '' @ prefix @ [bslash]
       @ ''FinishShot:d '' @ prefix @ [bslash] @ ''DefaultLength:f '' @ prefix @ [bslash]
       @ ''Speaker:g '' @ prefix @ [bslash] @ ''Sample:s '' @ prefix @ [bslash]
       @ ''ForceEnd:d '' @ prefix @ [bslash] @ ''Positional:d }''"

definition dialogValueLine :: "action \<Rightarrow> baseAction \<Rightarrow> dialogFields \<Rightarrow> string" where
  "dialogValueLine action b v =
     ''   '' @ [dquote] @ (ac_name b) @ [dquote] @ ''  '' @ (numToString (ac_typeNum action))
       @ ''              '' @ (numToString (ac_shot b)) @ ''              ''
       @ (formatFloat (ac_offset b) 0) @ ''         '' @ (formatFloat (ac_duration b) 0)
       @ ''               '' @ (numToString (ac_syncPoint b)) @ ''                   ''
       @ (numToString (ac_finishShot b)) @ ''                    ''
       @ (formatFloat (ac_defaultLength b) 0) @ ''                '' @ (dlg_speaker v) @ '' ''
       @ [dquote] @ (dlg_sample v) @ [dquote] @ ''     '' @ (numToString (dlg_forceEnd v))
       @ ''                  '' @ (numToString (dlg_positional v)) @ ''                    ''"


definition popSchemaLine :: "string \<Rightarrow> string" where
  "popSchemaLine prefix =
     '' { '' @ prefix @ [bslash] @ ''Name:s '' @ prefix @ [bslash] @ ''Type:d '' @ prefix
       @ [bslash] @ ''Shot:d '' @ prefix @ [bslash] @ ''Offset:f '' @ prefix @ [bslash]
       @ ''Duration:f '' @ prefix @ [bslash] @ ''SyncPoint:d '' @ prefix @ [bslash]
       @ ''FinishShot:d '' @ prefix @ [bslash] @ ''DefaultLength:f '' @ prefix @ [bslash]
       @ ''Object:g  '' @ prefix @ [bslash] @ ''Location:g '' @ prefix @ [bslash]
       @ ''Facing:g  '' @ prefix @ [bslash] @ ''SetFacing:d '' @ prefix @ [bslash]
       @ ''Anim:s }''"

definition popValueLine :: "action \<Rightarrow> baseAction \<Rightarrow> popFields \<Rightarrow> string" where
  "popValueLine action b v =
     ''   '' @ [dquote] @ (ac_name b) @ [dquote] @ ''    '' @ (numToString (ac_typeNum action))
       @ ''              '' @ (numToString (ac_shot b)) @ ''              ''
       @ (formatFloat (ac_offset b) 0) @ ''         '' @ (formatFloat (ac_duration b) 0)
       @ ''           '' @ (numToString (ac_syncPoint b)) @ ''                   ''
       @ (numToString (ac_finishShot b)) @ ''                    ''
       @ (formatFloat (ac_defaultLength b) 0) @ ''                '' @ (pop_object v) @ '' ''
       @ (pop_location v) @ ''  '' @ (pop_facing v) @ '' '' @ (numToString (pop_setFacing v))
       @ ''                   '' @ [dquote] @ (pop_anim v) @ [dquote] @ ''             ''"


definition fadeSchemaLine :: "string \<Rightarrow> string" where
  "fadeSchemaLine prefix =
     '' { '' @ prefix @ [bslash] @ ''Name:s '' @ prefix @ [bslash] @ ''Type:d '' @ prefix
       @ [bslash] @ ''Shot:d '' @ prefix @ [bslash] @ ''Offset:f '' @ prefix @ [bslash]
       @ ''Duration:f '' @ prefix @ [bslash] @ ''SyncPoint:d '' @ prefix @ [bslash]
       @ ''FinishShot:d '' @ prefix @ [bslash] @ ''DefaultLength:f '' @ prefix @ [bslash]
       @ ''FXType:d '' @ prefix @ [bslash] @ ''Magnitude:f '' @ prefix @ [bslash]
       @ ''Frequency:f '' @ prefix @ [bslash] @ ''Rolling:d '' @ prefix @ [bslash]
       @ ''Fadeout:d '' @ prefix @ [bslash] @ ''Color:dddd '' @ prefix @ [bslash]
       @ ''Target:f }''"

definition fadeValueLine :: "action \<Rightarrow> baseAction \<Rightarrow> fadeFields \<Rightarrow> string" where
  "fadeValueLine action b v =
     ''   '' @ [dquote] @ (ac_name b) @ [dquote] @ ''     ''
       @ (numToString (ac_typeNum action)) @ ''              '' @ (numToString (ac_shot b))
       @ ''              '' @ (formatFloat (ac_offset b) 0) @ ''         ''
       @ (formatFloat (ac_duration b) 0) @ ''           '' @ (numToString (ac_syncPoint b))
       @ ''                   '' @ (numToString (ac_finishShot b)) @ ''                    ''
       @ (formatFloat (ac_defaultLength b) 0) @ ''                ''
       @ (numToString (fd_fxType v)) @ ''                '' @ (formatFloat (fd_magnitude v) 0)
       @ ''            '' @ (formatFloat (fd_frequency v) 0) @ ''           ''
       @ (numToString (fd_rolling v)) @ ''                 '' @ (numToString (fd_fadeout v))
       @ ''                 '' @ (formatQuadInt (fd_color v)) @ ''          ''
       @ (formatFloat (fd_targetVal v) 0) @ ''         ''"


definition charAnimSchemaLine :: "string \<Rightarrow> string" where
  "charAnimSchemaLine prefix =
     '' { '' @ prefix @ [bslash] @ ''Name:s '' @ prefix @ [bslash] @ ''Type:d '' @ prefix
       @ [bslash] @ ''Shot:d '' @ prefix @ [bslash] @ ''Offset:f '' @ prefix @ [bslash]
       @ ''Duration:f '' @ prefix @ [bslash] @ ''SyncPoint:d '' @ prefix @ [bslash]
       @ ''FinishShot:d '' @ prefix @ [bslash] @ ''DefaultLength:f '' @ prefix @ [bslash]
       @ ''Character:g '' @ prefix @ [bslash] @ ''AnimName:s '' @ prefix @ [bslash]
       @ ''Length:f '' @ prefix @ [bslash] @ ''AnimGroup:s    '' @ prefix @ [bslash]
       @ ''AnimatedInPlace:d '' @ prefix @ [bslash] @ ''Loops:d '' @ prefix @ [bslash]
       @ ''AnimsToPlay:d }''"

definition charAnimValueLine :: "action \<Rightarrow> baseAction \<Rightarrow> charAnimFields \<Rightarrow> string" where
  "charAnimValueLine action b v =
     ''   '' @ [dquote] @ (ac_name b) @ [dquote] @ '' '' @ (numToString (ac_typeNum action))
       @ ''              '' @ (numToString (ac_shot b)) @ ''              ''
       @ (formatFloat (ac_offset b) 0) @ ''         '' @ (formatFloat (ac_duration b) 0)
       @ ''           '' @ (numToString (ac_syncPoint b)) @ ''                   ''
       @ (numToString (ac_finishShot b)) @ ''                    ''
       @ (formatFloat (ac_defaultLength b) 0) @ ''                '' @ (ca_character v)
       @ ''   '' @ [dquote] @ (ca_animName v) @ [dquote] @ ''     ''
       @ (formatFloat (ca_length v) 0) @ ''         '' @ [dquote] @ (ca_animGroup v) @ [dquote]
       @ '' '' @ (numToString (ca_animatedInPlace v)) @ ''                         ''
       @ (numToString (ca_loops v)) @ ''               '' @ (numToString (ca_animsToPlay v))
       @ ''                     ''"


definition objAnimSchemaLine :: "string \<Rightarrow> string" where
  "objAnimSchemaLine prefix =
     '' { '' @ prefix @ [bslash] @ ''Name:s   '' @ prefix @ [bslash] @ ''Type:d '' @ prefix
       @ [bslash] @ ''Shot:d '' @ prefix @ [bslash] @ ''Offset:f '' @ prefix @ [bslash]
       @ ''Duration:f '' @ prefix @ [bslash] @ ''SyncPoint:d '' @ prefix @ [bslash]
       @ ''FinishShot:d '' @ prefix @ [bslash] @ ''DefaultLength:f '' @ prefix @ [bslash]
       @ ''Object:g  '' @ prefix @ [bslash] @ ''AnimName:s '' @ prefix @ [bslash]
       @ ''StartAnimating:d '' @ prefix @ [bslash] @ ''Looping:d '' @ prefix @ [bslash]
       @ ''HideWhenDone:d '' @ prefix @ [bslash] @ ''SetToEndOnSkip:d }''"

definition objAnimValueLine :: "action \<Rightarrow> baseAction \<Rightarrow> objAnimFields \<Rightarrow> string" where
  "objAnimValueLine action b v =
     ''   '' @ [dquote] @ (ac_name b) @ [dquote] @ '' '' @ (numToString (ac_typeNum action))
       @ ''              '' @ (numToString (ac_shot b)) @ ''              ''
       @ (formatFloat (ac_offset b) 0) @ ''         '' @ (formatFloat (ac_duration b) 0)
       @ ''           '' @ (numToString (ac_syncPoint b)) @ ''                   ''
       @ (numToString (ac_finishShot b)) @ ''                    ''
       @ (formatFloat (ac_defaultLength b) 0) @ ''                '' @ (oa_object v) @ '' ''
       @ [dquote] @ (oa_animName v) @ [dquote] @ ''                 ''
       @ (numToString (oa_startAnimating v)) @ ''                        ''
       @ (numToString (oa_looping v)) @ ''                 ''
       @ (numToString (oa_hideWhenDone v)) @ ''                      ''
       @ (numToString (oa_setToEndOnSkip v)) @ ''                        ''"


definition triggerSchemaLine :: "string \<Rightarrow> string" where
  "triggerSchemaLine prefix =
     '' { '' @ prefix @ [bslash] @ ''Name:s '' @ prefix @ [bslash] @ ''Type:d '' @ prefix
       @ [bslash] @ ''TriggerName:s '' @ prefix @ [bslash] @ ''Shot:d '' @ prefix @ [bslash]
       @ ''Offset:f '' @ prefix @ [bslash] @ ''Duration:f '' @ prefix @ [bslash]
       @ ''SyncPoint:d '' @ prefix @ [bslash] @ ''FinishShot:d '' @ prefix @ [bslash]
       @ ''DefaultLength:f }''"

definition triggerValueLine :: "action \<Rightarrow> baseAction \<Rightarrow> string \<Rightarrow> string" where
  "triggerValueLine action b v =
     ''   '' @ [dquote] @ (ac_name b) @ [dquote] @ ''   '' @ (numToString (ac_typeNum action))
       @ ''              '' @ [dquote] @ v @ [dquote] @ ''       '' @ (numToString (ac_shot b))
       @ ''               '' @ (formatFloat (ac_offset b) 0) @ ''         ''
       @ (formatFloat (ac_duration b) 0) @ ''            '' @ (numToString (ac_syncPoint b))
       @ ''                    '' @ (numToString (ac_finishShot b)) @ ''                     ''
       @ (formatFloat (ac_defaultLength b) 0) @ ''    ''"


definition exportAction :: "action \<Rightarrow> nat \<Rightarrow> string" where
  "exportAction action index =
     (let prefix = ''Action'' @ numToString (Fin (of_nat index)) in
      join [newline]
        ([''[ '' @ prefix @ '' : 1 ]''] @
         (case action of
            CameraAction b v \<Rightarrow> [cameraSchemaLine prefix, cameraValueLine action b v]
          | DialogAction b v \<Rightarrow> [dialogSchemaLine prefix, dialogValueLine action b v]
          | PopAction b v \<Rightarrow> [popSchemaLine prefix, popValueLine action b v]
          | FadeAction b v \<Rightarrow> [fadeSchemaLine prefix, fadeValueLine action b v]
          | CharAnimAction b v \<Rightarrow> [charAnimSchemaLine prefix, charAnimValueLine action b v]
          | ObjAnimAction b v \<Rightarrow> [objAnimSchemaLine prefix, objAnimValueLine action b v]
          | TriggerAction b v \<Rightarrow> [triggerSchemaLine prefix, triggerValueLine action b v])))"

definition cameraPathSchemaLine :: string where
  "cameraPathSchemaLine =
     '' { GUID:s              Pos:fff                    Orient:fff                 Scale:fff                  BBox:ffffff                    Loops:d Range:fff                  Min:fff                               PlaySpeed:f CamPosOffset:fff                      CamRotOffset:fff           LookatGuid:g      LookatOffset:fff           FromCenter:d Interpolate:d Lookspring:d }''"

definition cameraPathValueLine :: "cameraPath \<Rightarrow> string" where
  "cameraPathValueLine cp =
     ''   '' @ (formatString (cp_guid cp) 18) @ '' ''
       @ (padEnd 26 (formatTripleFloat (cp_pos cp))) @ '' ''
       @ (padEnd 26 (formatTripleFloat (cp_orient cp))) @ '' ''
       @ (padEnd 26 (formatTripleFloat (cp_scale cp))) @ '' ''
       @ (padEnd 30 (formatSixFloat (cp_bBox cp))) @ '' '' @ (formatInt (cp_loops cp) 7)
       @ '' '' @ (padEnd 22 (formatTripleFloat (cp_range cp))) @ '' ''
       @ (padEnd 33 (formatTripleFloat (cp_min cp))) @ '' ''
       @ (formatFloat (cp_playSpeed cp) 11) @ '' ''
       @ (padEnd 37 (formatTripleFloat (cp_camPosOffset cp))) @ '' ''
       @ (padEnd 26 (formatTripleFloat (cp_camRotOffset cp))) @ '' ''
       @ (formatGuid (cp_lookatGuid cp) 17) @ '' ''
       @ (padEnd 26 (formatTripleFloat (cp_lookatOffset cp))) @ '' ''
       @ (formatInt (cp_fromCenter cp) 12) @ '' '' @ (formatInt (cp_interpolate cp) 13) @ '' ''
       @ (formatInt (cp_lookspring cp) 12)"

definition keyframeLine :: "keyframe \<Rightarrow> string" where
  "keyframeLine kf =
     ''   '' @ (formatInt (posX kf) 6) @ '' '' @ (formatInt (posY kf) 6) @ '' ''
       @ (formatInt (posZ kf) 6) @ '' '' @ (formatInt (oriX kf) 6) @ '' ''
       @ (formatInt (oriY kf) 6) @ '' '' @ (formatInt (oriZ kf) 6) @ '' ''
       @ (formatInt (oriW kf) 6)"

definition exportCameraPath :: "cameraPath \<Rightarrow> string" where
  "exportCameraPath cp =
     join [newline]
       ([''[ CameraPath : 1 ]'', cameraPathSchemaLine, cameraPathValueLine cp,
         ''[ Keyframes : 1 ]'',
         '' { PosX:d PosY:d PosZ:d OriX:d OriY:d OriZ:d OriW:d }''] @
        map keyframeLine (cp_keyframes cp) @ [[]])"

definition participantsSectionLine :: "cinemaObject \<Rightarrow> string" where
  "participantsSectionLine cinema =
     ''[ Participants : '' @ (numToString (Fin (of_nat (length (participants cinema)))))
       @ '' ]''"

definition participantLine :: "string \<Rightarrow> string" where
  "participantLine p =
     ''   '' @ p @ '' ''"

text \<open>The two constant sections \<open>Action-1\<close> and \<open>Action-2\<close>.\<close>

definition actionMinus1SchemaLine :: string where
  "actionMinus1SchemaLine =
     '' { Action-1'' @ [bslash] @ ''Shot:d Action-1'' @ [bslash] @ ''Offset:f Action-1''
       @ [bslash] @ ''Duration:f Action-1'' @ [bslash] @ ''SyncPoint:d Action-1'' @ [bslash]
       @ ''FinishShot:d Action-1'' @ [bslash] @ ''DefaultLength:f Action-1'' @ [bslash]
       @ ''FXType:d Action-1'' @ [bslash] @ ''Magnitude:f Action-1'' @ [bslash]
       @ ''Frequency:f Action-1'' @ [bslash] @ ''Rolling:d Action-1'' @ [bslash]
       @ ''Fadeout:d Action-1'' @ [bslash] @ ''Color:dddd Action-1'' @ [bslash]
       @ ''Target:f }''"

definition actionMinus2SchemaLine :: string where
  "actionMinus2SchemaLine =
     '' { Action-2'' @ [bslash] @ ''Shot:d Action-2'' @ [bslash] @ ''Offset:f Action-2''
       @ [bslash] @ ''Duration:f Action-2'' @ [bslash] @ ''SyncPoint:d Action-2'' @ [bslash]
       @ ''FinishShot:d Action-2'' @ [bslash] @ ''DefaultLength:f Action-2'' @ [bslash]
       @ ''FXType:d Action-2'' @ [bslash] @ ''Magnitude:f Action-2'' @ [bslash]
       @ ''Frequency:f Action-2'' @ [bslash] @ ''Rolling:d Action-2'' @ [bslash]
       @ ''Fadeout:d Action-2'' @ [bslash] @ ''Color:dddd Action-2'' @ [bslash]
       @ ''Target:f }''"

definition actionMinusValueLine :: string where
  "actionMinusValueLine =
     ''   '' @ (formatInt (Fin 0) 15) @ '' '' @ (formatFloat (Fin 0) 17) @ '' ''
       @ (formatFloat (Fin 1) 19) @ '' '' @ (formatInt (Fin 0) 20) @ '' ''
       @ (formatInt (Fin 0) 21) @ '' '' @ (formatFloat (Fin 1) 24) @ '' ''
       @ (formatInt (Fin 3) 17) @ '' '' @ (formatFloat (Fin (15 / 100)) 20) @ '' ''
       @ (formatFloat (Fin 20) 20) @ '' '' @ (formatInt (Fin 0) 18) @ '' ''
       @ (formatInt (Fin 0) 18) @ '' ''
       @ (padEnd 18 (formatQuadInt ((Fin 0), (Fin 0), (Fin 0), (Fin 255)))) @ '' ''
       @ (formatFloat (Fin 0) 17)"

definition exportCinemaLines :: "cinemaObject \<Rightarrow> string list" where
  "exportCinemaLines cinema =
     [''[ Cinema : 1 ]'', cinemaSchemaLine, cinemaValueLine cinema] @
     concat (map (\<lambda>(i, sh). [shotSectionLine i, shotSchemaLine i, shotValueLine sh])
               (enumerate 0 (shots cinema))) @
     [[]] @
     concat (map (\<lambda>(i, sp). [syncPointSectionLine i, syncPointSchemaLine i, syncPointValueLine sp])
               (enumerate 0 (syncPoints cinema))) @
     [[], []] @
     map (\<lambda>(i, action). exportAction action i) (enumerate 0 (actions cinema)) @
     [[]] @
     [participantsSectionLine cinema, '' { PGuid:g           }''] @
     map participantLine (participants cinema) @
     [''[ Action-1 : 1 ]'', actionMinus1SchemaLine, actionMinusValueLine,
      ''[ Action-2 : 1 ]'', actionMinus2SchemaLine, actionMinusValueLine] @
     [[]] @
     map exportCameraPath (cameraPaths cinema)"

definition exportCinema :: "cinemaObject \<Rightarrow> string" where
  "exportCinema cinema = join [newline] (exportCinemaLines cinema)"


text \<open>\<open>exportMultipleCinemas\<close>: a separator before every record but the first.\<close>

definition cinemaSeparator :: string where
  "cinemaSeparator =
     [newline] @ ''//////////////////////////////////////////'' @ [newline, newline]"

definition exportMultipleCinemas :: "cinemaObject list \<Rightarrow> string" where
  "exportMultipleCinemas cinemas =
     concat (map (\<lambda>(index, cinema).
                    (if index > 0 then cinemaSeparator else []) @ exportCinema cinema)
               (enumerate 0 cinemas))"

section \<open>Defaults of the factories (types/cinema.ts)\<close>

text \<open>The camera fields that \<open>createDefaultAction('camera', index)\<close> sets; the unreachable
  \<open>default:\<close> arm of the decoder's \<open>switch\<close> holds the same values. \<open>cameraKeys\<close> lists the
  names under which the decoder looks the camera fields up.\<close>

definition defaultCameraFields :: cameraFields where
  "defaultCameraFields =
     \<lparr> cam_cameraType = Fin 0, cam_target = ''00000000_00000000'', cam_relative = Fin 0,
       cam_startOrient = (Fin 0, Fin 0, Fin 0), cam_endOrient = (Fin 0, Fin 0, Fin 0),
       cam_startOffset = (Fin 0, Fin 0, Fin 0), cam_endOffset = (Fin 0, Fin 0, Fin 0),
       cam_targetOffset = (Fin 0, Fin 0, Fin 0),
       cam_startFOV = Fin (1256637 / 1000000), cam_endFOV = Fin (1256637 / 1000000),
       cam_transitionPop = Fin 0, cam_loop = Fin 0, cam_endSyncPoint = Fin 0 \<rparr>"

definition cameraKeys :: "string list" where
  "cameraKeys =
     [''CameraType'', ''Target'', ''Relative'', ''StartOrient'', ''EndOrient'', ''StartOffset'',
      ''EndOffset'', ''TargetOffset'', ''StartFOV'', ''EndFOV'', ''TransitionPop'', ''Loop'',
      ''EndSyncPoint'']"


section \<open>Notions of the specification\<close>

text \<open>The rendering of an integer in base 10 without padding, and truncation toward zero.\<close>

definition decimalOfInt :: "int \<Rightarrow> string" where
  "decimalOfInt z = (if z < 0 then ''-'' @ showNat (nat (- z)) else showNat (nat z))"

definition truncTowardZero :: "rat \<Rightarrow> int" where
  "truncTowardZero r = (if r < 0 then - \<lfloor>- r\<rfloor> else \<lfloor>r\<rfloor>)"


text \<open>The float rule of the specification: of the rendering with six fractional digits, the
  trailing zeros go, but the first two fractional digits stay.\<close>

definition stripZerosKeepTwo :: "string \<Rightarrow> string" where
  "stripZerosKeepTwo s =
     (let ip = takeWhile (\<lambda>c. c \<noteq> CHR ''.'') s;
          fr = drop (length ip + 1) s
      in ip @ ''.'' @ take 2 fr @ dropTrailingZeros (drop 2 fr))"


text \<open>The number of tokens a field consumes by its type tag: three for a float triple, six for a
  float sextuple, four for an integer quadruple, one otherwise.\<close>

definition fieldArity :: "string \<Rightarrow> nat" where
  "fieldArity field =
     (if fieldTypeOf field = ''fff'' then 3
      else if fieldTypeOf field = ''ffffff'' then 6
      else if fieldTypeOf field = ''dddd'' then 4
      else 1)"


text \<open>A record in which every camera path has a keyframe; a line that reaches the CameraPath
  branch of the decoder's loop; and the keyframes that the Keyframes section after the
  CameraPath section at line \<open>i\<close> holds, none when there is no such section.\<close>

definition hasKeyframes :: "cinemaObject \<Rightarrow> bool" where
  "hasKeyframes c = (\<forall>cp \<in> set (cameraPaths c). cp_keyframes cp \<noteq> [])"

definition reachesCameraPath :: "string \<Rightarrow> bool" where
  "reachesCameraPath line =
     (startsWith line ''[ CameraPath :''
      \<and> matchIndexed ''Shot'' line = None
      \<and> matchIndexed ''SyncPoint'' line = None
      \<and> matchIndexed ''Action'' line = None)"

definition sectionKeyframes :: "string list \<Rightarrow> nat \<Rightarrow> keyframe list" where
  "sectionKeyframes lines i =
     (if i + 3 < length lines \<and> startsWith (trim (lines ! (i + 3))) ''[ Keyframes :''
      then snd (keyframesLoop lines (i + 5) [])
      else [])"


text \<open>A record with the generated \<open>id\<close> fields blanked, and the relations that compare two
  runs of the decoder up to those fields.\<close>

definition eraseActionId :: "action \<Rightarrow> action" where
  "eraseActionId a =
     (case a of
        CameraAction b v \<Rightarrow> CameraAction (b\<lparr>ac_id := []\<rparr>) v
      | DialogAction b v \<Rightarrow> DialogAction (b\<lparr>ac_id := []\<rparr>) v
      | PopAction b v \<Rightarrow> PopAction (b\<lparr>ac_id := []\<rparr>) v
      | FadeAction b v \<Rightarrow> FadeAction (b\<lparr>ac_id := []\<rparr>) v
      | CharAnimAction b v \<Rightarrow> CharAnimAction (b\<lparr>ac_id := []\<rparr>) v
      | ObjAnimAction b v \<Rightarrow> ObjAnimAction (b\<lparr>ac_id := []\<rparr>) v
      | TriggerAction b v \<Rightarrow> TriggerAction (b\<lparr>ac_id := []\<rparr>) v)"

definition eraseIds :: "cinemaObject \<Rightarrow> cinemaObject" where
  "eraseIds c =
     c\<lparr> shots := map (\<lambda>s. s\<lparr>sh_id := []\<rparr>) (shots c),
        syncPoints := map (\<lambda>s. s\<lparr>sp_id := []\<rparr>) (syncPoints c),
        actions := map eraseActionId (actions c),
        cameraPaths := map (\<lambda>p. p\<lparr>cp_id := []\<rparr>) (cameraPaths c) \<rparr>"

definition sameTurn :: "error + turn \<Rightarrow> error + turn \<Rightarrow> bool" where
  "sameTurn r1 r2 =
     (case (r1, r2) of
        (Inl e1, Inl e2) \<Rightarrow> True
      | (Inr (Return a i ka), Inr (Return b j kb)) \<Rightarrow> i = j \<and> eraseIds a = eraseIds b
      | (Inr (Continue i a ka), Inr (Continue j b kb)) \<Rightarrow> i = j \<and> eraseIds a = eraseIds b
      | _ \<Rightarrow> False)"

definition sameRecord ::
  "error + (cinemaObject \<times> nat \<times> nat) \<Rightarrow> error + (cinemaObject \<times> nat \<times> nat) \<Rightarrow> bool" where
  "sameRecord r1 r2 =
     (case (r1, r2) of
        (Inl e1, Inl e2) \<Rightarrow> True
      | (Inr (a, i, ka), Inr (b, j, kb)) \<Rightarrow> i = j \<and> eraseIds a = eraseIds b
      | _ \<Rightarrow> False)"

definition sameRecords :: "error + cinemaObject list \<Rightarrow> error + cinemaObject list \<Rightarrow> bool" where
  "sameRecords r1 r2 =
     (case (r1, r2) of
        (Inl e1, Inl e2) \<Rightarrow> True
      | (Inr xs, Inr ys) \<Rightarrow> map eraseIds xs = map eraseIds ys
      | _ \<Rightarrow> False)"


text \<open>A line that is neither a Cinema header nor an indexed Shot, SyncPoint or Action
  header.\<close>

definition plainLine :: "string \<Rightarrow> bool" where
  "plainLine line =
     (\<not> startsWith line ''[ Cinema :''
      \<and> matchIndexed ''Shot'' line = None
      \<and> matchIndexed ''SyncPoint'' line = None
      \<and> matchIndexed ''Action'' line = None)"


text \<open>An action with its stored index replaced.\<close>

definition withActionIndex :: "jsnum \<Rightarrow> action \<Rightarrow> action" where
  "withActionIndex n a =
     (case a of
        CameraAction b v \<Rightarrow> CameraAction (b\<lparr>ac_index := n\<rparr>) v
      | DialogAction b v \<Rightarrow> DialogAction (b\<lparr>ac_index := n\<rparr>) v
      | PopAction b v \<Rightarrow> PopAction (b\<lparr>ac_index := n\<rparr>) v
      | FadeAction b v \<Rightarrow> FadeAction (b\<lparr>ac_index := n\<rparr>) v
      | CharAnimAction b v \<Rightarrow> CharAnimAction (b\<lparr>ac_index := n\<rparr>) v
      | ObjAnimAction b v \<Rightarrow> ObjAnimAction (b\<lparr>ac_index := n\<rparr>) v
      | TriggerAction b v \<Rightarrow> TriggerAction (b\<lparr>ac_index := n\<rparr>) v)"


text \<open>The number that a token in a float position and in an integer position stands for: the
  number it parses to (floored in an integer position), and 0 when the token is missing or
  does not parse as a number. The \<open>j\<close>-th token of a value of several components, which are
  separated by single spaces. A line that opens a section whose schema line and value line
  the decoder reads next.\<close>

fun numberOrZero :: "string option \<Rightarrow> jsnum" where
  "numberOrZero None = Fin 0"
| "numberOrZero (Some t) = (if parseFloat t = NaN then Fin 0 else parseFloat t)"

fun integerOrZero :: "string option \<Rightarrow> jsnum" where
  "integerOrZero None = Fin 0"
| "integerOrZero (Some t) = (if parseFloat t = NaN then Fin 0 else mathFloor (parseFloat t))"

definition componentToken :: "string \<Rightarrow> nat \<Rightarrow> string option" where
  "componentToken val j = nthOpt (splitOn CHR '' '' val) j"

definition readsValues :: "string \<Rightarrow> bool" where
  "readsValues line =
     (startsWith line ''[ Cinema :'' \<or> matchIndexed ''Shot'' line \<noteq> None
      \<or> matchIndexed ''SyncPoint'' line \<noteq> None \<or> matchIndexed ''Action'' line \<noteq> None
      \<or> startsWith line ''[ CameraPath :'')"


text \<open>The \<open>id\<close> fields of the elements of a record: of its shots, sync points, actions and
  camera paths.\<close>

definition elementIds :: "cinemaObject \<Rightarrow> string list" where
  "elementIds c =
     map sh_id (shots c) @ map sp_id (syncPoints c)
       @ map (\<lambda>a. ac_id (ac_base a)) (actions c) @ map cp_id (cameraPaths c)"


section \<open>Sample inputs\<close>

text \<open>A source of identifiers, and a record whose only Action section carries the type code 99
  and a field named \<open>Target\<close>.\<close>

definition sampleUuids :: uuidSource where
  "sampleUuids n = ''uuid-'' @ showNat n"

definition unknownTypeText :: string where
  "unknownTypeText =
     ''[ Cinema : 1 ]'' @ [newline] @
     ''{ GUID:s }'' @ [newline] @
     [dquote] @ ''G'' @ [dquote] @ [newline] @
     ''[ Action0 : 1 ]'' @ [newline] @
     ''{ Action0'' @ [bslash] @ ''Type:d Action0'' @ [bslash] @ ''Target:f }'' @ [newline] @
     ''99 0.50''"


text \<open>A record with a CameraPath section and no Keyframes section.\<close>

definition noKeyframesText :: string where
  "noKeyframesText =
     ''[ Cinema : 1 ]'' @ [newline] @
     ''{ GUID:s }'' @ [newline] @
     [dquote] @ ''G'' @ [dquote] @ [newline] @
     ''[ CameraPath : 1 ]'' @ [newline] @
     ''{ GUID:s }'' @ [newline] @
     [dquote] @ ''P'' @ [dquote]"


text \<open>An input that ends right after a Cinema header.\<close>

definition headerOnlyText :: string where
  "headerOnlyText = ''[ Cinema : 1 ]''"


text \<open>A second source of identifiers.\<close>

definition otherUuids :: uuidSource where
  "otherUuids n = ''other-'' @ showNat n"


text \<open>Two Cinema sections, each with a Shot, the first with an empty GUID; and two Cinema
  sections with the GUIDs \<open>A\<close> and \<open>B\<close>.\<close>

definition mergedCinemasText :: string where
  "mergedCinemasText =
     ''[ Cinema : 1 ]'' @ [newline] @
     ''{ GUID:s }'' @ [newline] @
     [dquote, dquote] @ [newline] @
     ''[ Shot0 : 1 ]'' @ [newline] @
     ''{ Shot0'' @ [bslash] @ ''Name:s }'' @ [newline] @
     [dquote] @ ''a'' @ [dquote] @ [newline] @
     ''[ Cinema : 1 ]'' @ [newline] @
     ''{ GUID:s }'' @ [newline] @
     [dquote] @ ''B'' @ [dquote] @ [newline] @
     ''[ Shot0 : 1 ]'' @ [newline] @
     ''{ Shot0'' @ [bslash] @ ''Name:s }'' @ [newline] @
     [dquote] @ ''b'' @ [dquote]"

definition twoCinemasLines :: "string list" where
  "twoCinemasLines =
     [''[ Cinema : 1 ]'', ''{ GUID:s }'', [dquote] @ ''A'' @ [dquote],
      ''[ Cinema : 1 ]'', ''{ GUID:s }'', [dquote] @ ''B'' @ [dquote]]"

definition twoCinemasText :: string where
  "twoCinemasText = join [newline] twoCinemasLines"


text \<open>A record whose three shots store the indices 2, 0 and 7.\<close>

definition staleIndexCinema :: cinemaObject where
  "staleIndexCinema =
     emptyCinema
     \<lparr> shots :=
         [\<lparr> sh_id = ''a'', sh_index = Fin 2, sh_name = ''x'', sh_nextShot = Fin 1,
            sh_skipShot = Fin 1, sh_maxTime = Fin 10, sh_time = Fin 0 \<rparr>,
          \<lparr> sh_id = ''b'', sh_index = Fin 0, sh_name = ''y'', sh_nextShot = Fin 2,
            sh_skipShot = Fin 2, sh_maxTime = Fin 10, sh_time = Fin 0 \<rparr>,
          \<lparr> sh_id = ''c'', sh_index = Fin 7, sh_name = ''z'', sh_nextShot = Fin 3,
            sh_skipShot = Fin 3, sh_maxTime = Fin 10, sh_time = Fin 0 \<rparr>] \<rparr>"


section \<open>The round trip: notions\<close>

text \<open>The rounding of \<open>toFixed(6)\<close>: to the nearest multiple of \<open>10\<^sup>-\<^sup>6\<close>, a tie away from
  zero.\<close>

fun round6 :: "jsnum \<Rightarrow> jsnum" where
  "round6 (Fin r) =
     Fin ((if r < 0 then - 1 else 1) * of_nat (nat \<lfloor>\<bar>r\<bar> * 10 ^ 6 + 1 / 2\<rfloor>) / 10 ^ 6)"
| "round6 n = n"

definition round3 :: "triple \<Rightarrow> triple" where
  "round3 t = (case t of (a, b, c) \<Rightarrow> (round6 a, round6 b, round6 c))"

definition round6s :: "six \<Rightarrow> six" where
  "round6s t =
     (case t of (a, b, c, d, e, f) \<Rightarrow>
        (round6 a, round6 b, round6 c, round6 d, round6 e, round6 f))"

text \<open>What decoding the encoding of a record gives, field by field: a float field is rounded
  to six fractional digits, an integer or string field is kept, the \<open>id\<close> is the identifier
  drawn for the element and the \<open>index\<close> is the element's position.\<close>

definition decodedShot :: "string \<Rightarrow> nat \<Rightarrow> shot \<Rightarrow> shot" where
  "decodedShot uuid i sh =
     sh\<lparr> sh_id := uuid, sh_index := Fin (of_nat i),
         sh_maxTime := round6 (sh_maxTime sh), sh_time := round6 (sh_time sh) \<rparr>"

definition decodedSyncPoint :: "string \<Rightarrow> nat \<Rightarrow> syncPoint \<Rightarrow> syncPoint" where
  "decodedSyncPoint uuid i sp =
     sp\<lparr> sp_id := uuid, sp_index := Fin (of_nat i),
         sp_offset := round6 (sp_offset sp),
         sp_absoluteTimeStart := round6 (sp_absoluteTimeStart sp) \<rparr>"

definition decodedBase :: "string \<Rightarrow> nat \<Rightarrow> baseAction \<Rightarrow> baseAction" where
  "decodedBase uuid i b =
     b\<lparr> ac_id := uuid, ac_index := Fin (of_nat i),
        ac_offset := round6 (ac_offset b), ac_duration := round6 (ac_duration b),
        ac_defaultLength := round6 (ac_defaultLength b) \<rparr>"

definition decodedAction :: "string \<Rightarrow> nat \<Rightarrow> action \<Rightarrow> action" where
  "decodedAction uuid i a =
     (case a of
        CameraAction b v \<Rightarrow>
          CameraAction (decodedBase uuid i b)
            (v\<lparr> cam_startOrient := round3 (cam_startOrient v),
                cam_endOrient := round3 (cam_endOrient v),
                cam_startOffset := round3 (cam_startOffset v),
                cam_endOffset := round3 (cam_endOffset v),
                cam_targetOffset := round3 (cam_targetOffset v),
                cam_startFOV := round6 (cam_startFOV v),
                cam_endFOV := round6 (cam_endFOV v) \<rparr>)
      | DialogAction b v \<Rightarrow> DialogAction (decodedBase uuid i b) v
      | PopAction b v \<Rightarrow> PopAction (decodedBase uuid i b) v
      | FadeAction b v \<Rightarrow>
          FadeAction (decodedBase uuid i b)
            (v\<lparr> fd_magnitude := round6 (fd_magnitude v),
                fd_frequency := round6 (fd_frequency v),
                fd_targetVal := round6 (fd_targetVal v) \<rparr>)
      | CharAnimAction b v \<Rightarrow>
          CharAnimAction (decodedBase uuid i b) (v\<lparr> ca_length := round6 (ca_length v) \<rparr>)
      | ObjAnimAction b v \<Rightarrow> ObjAnimAction (decodedBase uuid i b) v
      | TriggerAction b v \<Rightarrow> TriggerAction (decodedBase uuid i b) v)"

definition decodedCameraPath :: "string \<Rightarrow> cameraPath \<Rightarrow> cameraPath" where
  "decodedCameraPath uuid cp =
     cp\<lparr> cp_id := uuid,
         cp_pos := round3 (cp_pos cp), cp_orient := round3 (cp_orient cp),
         cp_scale := round3 (cp_scale cp), cp_bBox := round6s (cp_bBox cp),
         cp_range := round3 (cp_range cp), cp_min := round3 (cp_min cp),
         cp_playSpeed := round6 (cp_playSpeed cp),
         cp_camPosOffset := round3 (cp_camPosOffset cp),
         cp_camRotOffset := round3 (cp_camRotOffset cp),
         cp_lookatOffset := round3 (cp_lookatOffset cp) \<rparr>"

definition decodedProperties :: "cinemaProperties \<Rightarrow> cinemaProperties" where
  "decodedProperties p =
     p\<lparr> initialPos := round3 (initialPos p), orientation := round3 (orientation p),
        localBoundingBox := round6s (localBoundingBox p), pr_time := round6 (pr_time p) \<rparr>"

text \<open>The identifiers are drawn in the order of decoding: shots, sync points, actions, camera
  paths.\<close>

definition decodedCinema :: "uuidSource \<Rightarrow> cinemaObject \<Rightarrow> cinemaObject" where
  "decodedCinema uuids c =
     c\<lparr> duration := round6 (duration c),
         properties := decodedProperties (properties c),
         shots := map (\<lambda>(i, sh). decodedShot (uuids i) i sh) (enumerate 0 (shots c)),
         syncPoints :=
           map (\<lambda>(i, sp). decodedSyncPoint (uuids (length (shots c) + i)) i sp)
             (enumerate 0 (syncPoints c)),
         actions :=
           map (\<lambda>(i, a). decodedAction (uuids (length (shots c) + length (syncPoints c) + i)) i a)
             (enumerate 0 (actions c)),
         cameraPaths :=
           map (\<lambda>(i, cp). decodedCameraPath
                  (uuids (length (shots c) + length (syncPoints c) + length (actions c) + i)) cp)
             (enumerate 0 (cameraPaths c)) \<rparr>"

text \<open>The records that the format can carry. A quoted string holds no double quote and no line
  feed; an identifier written without quotes is one token: not empty, without white space or
  double quote; a participant, moreover, does not start with a bracket or brace. An integer
  field holds an integer and a float field a finite number, both below \<open>10\<^sup>2\<^sup>1\<close> in
  magnitude, where the renderings are plain decimals.\<close>

definition quotable :: "string \<Rightarrow> bool" where
  "quotable s = (dquote \<notin> set s \<and> newline \<notin> set s)"

definition plainToken :: "string \<Rightarrow> bool" where
  "plainToken t = (t \<noteq> [] \<and> (\<forall>c \<in> set t. \<not> isSpace c \<and> c \<noteq> dquote))"

definition participantToken :: "string \<Rightarrow> bool" where
  "participantToken t = (plainToken t \<and> hd t \<noteq> CHR ''['' \<and> hd t \<noteq> CHR ''{'')"

fun intField :: "jsnum \<Rightarrow> bool" where
  "intField (Fin r) = (of_int \<lfloor>r\<rfloor> = r \<and> \<bar>r\<bar> < 10 ^ 21)"
| "intField n = False"

fun floatField :: "jsnum \<Rightarrow> bool" where
  "floatField (Fin r) = (\<bar>r\<bar> < 10 ^ 21)"
| "floatField n = False"

definition float3 :: "triple \<Rightarrow> bool" where
  "float3 t = (case t of (a, b, c) \<Rightarrow> floatField a \<and> floatField b \<and> floatField c)"

definition float6 :: "six \<Rightarrow> bool" where
  "float6 t =
     (case t of (a, b, c, d, e, f) \<Rightarrow>
        floatField a \<and> floatField b \<and> floatField c \<and> floatField d \<and> floatField e
        \<and> floatField f)"

definition int4 :: "quad \<Rightarrow> bool" where
  "int4 t = (case t of (a, b, c, d) \<Rightarrow> intField a \<and> intField b \<and> intField c \<and> intField d)"

definition encodableShot :: "shot \<Rightarrow> bool" where
  "encodableShot sh =
     (quotable (sh_name sh) \<and> intField (sh_nextShot sh) \<and> intField (sh_skipShot sh)
      \<and> floatField (sh_maxTime sh) \<and> floatField (sh_time sh))"

definition encodableSyncPoint :: "syncPoint \<Rightarrow> bool" where
  "encodableSyncPoint sp =
     (quotable (sp_name sp) \<and> intField (sp_type sp) \<and> intField (sp_action sp)
      \<and> floatField (sp_offset sp) \<and> intField (sp_shot sp) \<and> intField (sp_fromEnd sp)
      \<and> floatField (sp_absoluteTimeStart sp))"

definition encodableBase :: "baseAction \<Rightarrow> bool" where
  "encodableBase b =
     (quotable (ac_name b) \<and> intField (ac_shot b) \<and> floatField (ac_offset b)
      \<and> floatField (ac_duration b) \<and> intField (ac_syncPoint b) \<and> intField (ac_finishShot b)
      \<and> floatField (ac_defaultLength b))"

definition encodableAction :: "action \<Rightarrow> bool" where
  "encodableAction a =
     (encodableBase (ac_base a) \<and>
      (case a of
         CameraAction b v \<Rightarrow>
           intField (cam_cameraType v) \<and> plainToken (cam_target v) \<and> intField (cam_relative v)
           \<and> float3 (cam_startOrient v) \<and> float3 (cam_endOrient v)
           \<and> float3 (cam_startOffset v) \<and> float3 (cam_endOffset v)
           \<and> float3 (cam_targetOffset v) \<and> floatField (cam_startFOV v)
           \<and> floatField (cam_endFOV v) \<and> intField (cam_transitionPop v)
           \<and> intField (cam_loop v) \<and> intField (cam_endSyncPoint v)
       | DialogAction b v \<Rightarrow>
           plainToken (dlg_speaker v) \<and> quotable (dlg_sample v) \<and> intField (dlg_forceEnd v)
           \<and> intField (dlg_positional v)
       | PopAction b v \<Rightarrow>
           plainToken (pop_object v) \<and> plainToken (pop_location v) \<and> plainToken (pop_facing v)
           \<and> intField (pop_setFacing v) \<and> quotable (pop_anim v)
       | FadeAction b v \<Rightarrow>
           intField (fd_fxType v) \<and> floatField (fd_magnitude v) \<and> floatField (fd_frequency v)
           \<and> intField (fd_rolling v) \<and> intField (fd_fadeout v) \<and> int4 (fd_color v)
           \<and> floatField (fd_targetVal v)
       | CharAnimAction b v \<Rightarrow>
           plainToken (ca_character v) \<and> quotable (ca_animName v) \<and> floatField (ca_length v)
           \<and> quotable (ca_animGroup v) \<and> intField (ca_animatedInPlace v)
           \<and> intField (ca_loops v) \<and> intField (ca_animsToPlay v)
       | ObjAnimAction b v \<Rightarrow>
           plainToken (oa_object v) \<and> quotable (oa_animName v)
           \<and> intField (oa_startAnimating v) \<and> intField (oa_looping v)
           \<and> intField (oa_hideWhenDone v) \<and> intField (oa_setToEndOnSkip v)
       | TriggerAction b v \<Rightarrow> quotable v))"

definition encodableKeyframe :: "keyframe \<Rightarrow> bool" where
  "encodableKeyframe kf =
     (intField (posX kf) \<and> intField (posY kf) \<and> intField (posZ kf) \<and> intField (oriX kf)
      \<and> intField (oriY kf) \<and> intField (oriZ kf) \<and> intField (oriW kf))"

definition encodableCameraPath :: "cameraPath \<Rightarrow> bool" where
  "encodableCameraPath cp =
     (quotable (cp_guid cp) \<and> float3 (cp_pos cp) \<and> float3 (cp_orient cp)
      \<and> float3 (cp_scale cp) \<and> float6 (cp_bBox cp) \<and> intField (cp_loops cp)
      \<and> float3 (cp_range cp) \<and> float3 (cp_min cp) \<and> floatField (cp_playSpeed cp)
      \<and> float3 (cp_camPosOffset cp) \<and> float3 (cp_camRotOffset cp)
      \<and> plainToken (cp_lookatGuid cp) \<and> float3 (cp_lookatOffset cp)
      \<and> intField (cp_fromCenter cp) \<and> intField (cp_interpolate cp)
      \<and> intField (cp_lookspring cp)
      \<and> cp_keyframes cp \<noteq> [] \<and> list_all encodableKeyframe (cp_keyframes cp))"

definition encodableProperties :: "cinemaProperties \<Rightarrow> bool" where
  "encodableProperties p =
     (intField (doesCameraColl p) \<and> intField (doesCameraFade p) \<and> intField (lightChannels p)
      \<and> intField (objectFlags p) \<and> quotable (scriptResource p) \<and> float3 (initialPos p)
      \<and> float3 (orientation p) \<and> float6 (localBoundingBox p) \<and> intField (objSaveFlag p)
      \<and> intField (repeatable p) \<and> intField (popAtEnd p) \<and> intField (cinematic p)
      \<and> floatField (pr_time p) \<and> intField (initialShot p) \<and> intField (bilboInvisible p)
      \<and> intField (hasIntroTrans p) \<and> intField (hasOutroTrans p) \<and> intField (skippable p)
      \<and> intField (isDeathCinema p) \<and> intField (forceNoWeapon p) \<and> intField (forceUseStick p)
      \<and> intField (forceUseSting p) \<and> intField (letterbox p) \<and> intField (disableControl p)
      \<and> intField (bypassQueue p) \<and> intField (lowPriority p) \<and> intField (subtitleInBox p))"

text \<open>A JavaScript array holds fewer than \<open>2\<^sup>3\<^sup>2\<close> elements.\<close>

definition encodable :: "cinemaObject \<Rightarrow> bool" where
  "encodable c =
     (quotable (guid c) \<and> quotable (objName c) \<and> floatField (duration c)
      \<and> encodableProperties (properties c)
      \<and> list_all encodableShot (shots c) \<and> length (shots c) < 2 ^ 32
      \<and> list_all encodableSyncPoint (syncPoints c) \<and> length (syncPoints c) < 2 ^ 32
      \<and> list_all encodableAction (actions c) \<and> length (actions c) < 2 ^ 32
      \<and> list_all participantToken (participants c) \<and> length (participants c) < 2 ^ 32
      \<and> list_all encodableCameraPath (cameraPaths c))"

text \<open>Sample elements: a shot whose name holds a double quote, and a camera path with one
  keyframe.\<close>

definition quoteShot :: shot where
  "quoteShot =
     \<lparr> sh_id = ''s'', sh_index = Fin 0, sh_name = ''a'' @ [dquote] @ '' b'', sh_nextShot = Fin 1,
       sh_skipShot = Fin 1, sh_maxTime = Fin 10, sh_time = Fin 0 \<rparr>"

definition sampleCameraPath :: cameraPath where
  "sampleCameraPath =
     \<lparr> cp_id = ''c'', cp_guid = ''P'', cp_pos = (Fin 0, Fin 0, Fin 0),
       cp_orient = (Fin 0, Fin 0, Fin 0), cp_scale = (Fin 1, Fin 1, Fin 1),
       cp_bBox = (Fin 0, Fin 0, Fin 0, Fin 0, Fin 0, Fin 0), cp_loops = Fin 1,
       cp_range = (Fin 0, Fin 0, Fin 0), cp_min = (Fin 0, Fin 0, Fin 0), cp_playSpeed = Fin 1,
       cp_camPosOffset = (Fin 0, Fin 0, Fin 0), cp_camRotOffset = (Fin 0, Fin 0, Fin 0),
       cp_lookatGuid = ''ABCABCAB_CABCABC0'', cp_lookatOffset = (Fin 0, Fin 0, Fin 0),
       cp_fromCenter = Fin 0, cp_interpolate = Fin 1, cp_lookspring = Fin 0,
       cp_keyframes = [createDefaultKeyframe] \<rparr>"

text \<open>Notions of the proofs. A token that \<open>pushToken\<close> adds as it is; trimming on the right;
  the fields of a schema line and the map that \<open>parseValues\<close> binds from the fields and the
  tokens.\<close>

definition tokenDone :: "string \<Rightarrow> bool" where
  "tokenDone t = (t \<noteq> [] \<and> trim t = t)"

definition trimRight :: "string \<Rightarrow> string" where
  "trimRight s = rev (dropWhile isSpace (rev s))"

definition schemaFields :: "string \<Rightarrow> string list option" where
  "schemaFields h = (case matchBraces h of None \<Rightarrow> None | Some g \<Rightarrow> Some (splitWs (trim g)))"

definition boundValues :: "string list \<Rightarrow> string list \<Rightarrow> (string \<rightharpoonup> string)" where
  "boundValues fs toks = bindFields fs toks 0 Map.empty"

text \<open>The lines of the text that \<open>exportCinema\<close> returns: the elements of
  \<open>exportCinemaLines\<close>, with the three lines of each action and the lines of each camera path
  (which the encoder joins before it pushes them) apart.\<close>

definition shotLines :: "nat \<Rightarrow> shot \<Rightarrow> string list" where
  "shotLines i sh = [shotSectionLine i, shotSchemaLine i, shotValueLine sh]"

definition syncPointLines :: "nat \<Rightarrow> syncPoint \<Rightarrow> string list" where
  "syncPointLines i sp = [syncPointSectionLine i, syncPointSchemaLine i, syncPointValueLine sp]"

definition actionSectionLine :: "nat \<Rightarrow> string" where
  "actionSectionLine i = ''[ '' @ (''Action'' @ numToString (Fin (of_nat i))) @ '' : 1 ]''"

definition actionSchemaLine :: "action \<Rightarrow> string \<Rightarrow> string" where
  "actionSchemaLine a prefix =
     (case a of
        CameraAction b v \<Rightarrow> cameraSchemaLine prefix
      | DialogAction b v \<Rightarrow> dialogSchemaLine prefix
      | PopAction b v \<Rightarrow> popSchemaLine prefix
      | FadeAction b v \<Rightarrow> fadeSchemaLine prefix
      | CharAnimAction b v \<Rightarrow> charAnimSchemaLine prefix
      | ObjAnimAction b v \<Rightarrow> objAnimSchemaLine prefix
      | TriggerAction b v \<Rightarrow> triggerSchemaLine prefix)"

definition actionValueLine :: "action \<Rightarrow> string" where
  "actionValueLine a =
     (case a of
        CameraAction b v \<Rightarrow> cameraValueLine a b v
      | DialogAction b v \<Rightarrow> dialogValueLine a b v
      | PopAction b v \<Rightarrow> popValueLine a b v
      | FadeAction b v \<Rightarrow> fadeValueLine a b v
      | CharAnimAction b v \<Rightarrow> charAnimValueLine a b v
      | ObjAnimAction b v \<Rightarrow> objAnimValueLine a b v
      | TriggerAction b v \<Rightarrow> triggerValueLine a b v)"

definition actionLines :: "nat \<Rightarrow> action \<Rightarrow> string list" where
  "actionLines i a =
     [actionSectionLine i, actionSchemaLine a (''Action'' @ numToString (Fin (of_nat i))),
      actionValueLine a]"

definition keyframesSchemaLine :: string where
  "keyframesSchemaLine = '' { PosX:d PosY:d PosZ:d OriX:d OriY:d OriZ:d OriW:d }''"

definition cameraPathLines :: "cameraPath \<Rightarrow> string list" where
  "cameraPathLines cp =
     [''[ CameraPath : 1 ]'', cameraPathSchemaLine, cameraPathValueLine cp,
      ''[ Keyframes : 1 ]'', keyframesSchemaLine]
     @ map keyframeLine (cp_keyframes cp) @ [[]]"

definition fixedActionLines :: "string list" where
  "fixedActionLines =
     [''[ Action-1 : 1 ]'', actionMinus1SchemaLine, actionMinusValueLine,
      ''[ Action-2 : 1 ]'', actionMinus2SchemaLine, actionMinusValueLine]"

definition exportedLines :: "cinemaObject \<Rightarrow> string list" where
  "exportedLines c =
     [''[ Cinema : 1 ]'', cinemaSchemaLine, cinemaValueLine c]
     @ concat (map (\<lambda>(i, sh). shotLines i sh) (enumerate 0 (shots c)))
     @ [[]]
     @ concat (map (\<lambda>(i, sp). syncPointLines i sp) (enumerate 0 (syncPoints c)))
     @ [[], []]
     @ concat (map (\<lambda>(i, a). actionLines i a) (enumerate 0 (actions c)))
     @ [[]]
     @ [participantsSectionLine c, '' { PGuid:g           }'']
     @ map participantLine (participants c)
     @ fixedActionLines
     @ [[]]
     @ concat (map cameraPathLines (cameraPaths c))"

text \<open>The characters of a rendered number, and a line that the decoder's loop skips.\<close>

definition numChar :: "char \<Rightarrow> bool" where
  "numChar c = (isDigit c \<or> c = CHR ''-'' \<or> c = CHR ''.'')"

definition otherLine :: "string \<Rightarrow> bool" where
  "otherLine l =
     (plainLine (trim l) \<and> \<not> startsWith (trim l) ''[ Participants :''
      \<and> \<not> startsWith (trim l) ''[ CameraPath :'')"

text \<open>A run of the loop over a segment of the lines: entered at the first line of the segment
  with a record and a count of identifiers, it reaches the line after the segment with another
  record and count, whatever comes before and after the segment.\<close>

definition segment ::
  "uuidSource \<Rightarrow> string list \<Rightarrow> cinemaObject \<Rightarrow> nat \<Rightarrow> cinemaObject \<Rightarrow> nat \<Rightarrow> bool" where
  "segment u seg c k c' k' =
     (\<forall>A B. parseLoop u (A @ seg @ B) (length A) c k
              = parseLoop u (A @ seg @ B) (length A + length seg) c' k')"

text \<open>A record that the format can carry, whose stored \<open>index\<close> fields are not the positions, and
  a record with a double quote in a name, a fraction in an integer field and NaN in a float
  field.\<close>

definition sampleShot :: shot where
  "sampleShot =
     \<lparr> sh_id = ''s'', sh_index = Fin 7, sh_name = ''Intro'', sh_nextShot = Fin 1,
       sh_skipShot = Fin 1, sh_maxTime = Fin (12345678 / 10000000), sh_time = Fin 0 \<rparr>"

definition nanShot :: shot where
  "nanShot =
     \<lparr> sh_id = ''t'', sh_index = Fin 1, sh_name = ''Outro'', sh_nextShot = Fin (3 / 2),
       sh_skipShot = Fin 1, sh_maxTime = NaN, sh_time = Fin 0 \<rparr>"

definition staleSyncPoint :: syncPoint where
  "staleSyncPoint =
     \<lparr> sp_id = ''p'', sp_index = Fin 5, sp_name = ''Sync 0'', sp_type = Fin 0, sp_action = Fin 0,
       sp_offset = Fin 0, sp_shot = Fin 0, sp_fromEnd = Fin 1, sp_absoluteTimeStart = Fin 0 \<rparr>"

definition sampleBase :: baseAction where
  "sampleBase =
     \<lparr> ac_id = ''a'', ac_index = Fin 3, ac_name = ''Pan'', ac_shot = Fin 0,
       ac_offset = Fin (1 / 2), ac_duration = Fin 2, ac_syncPoint = Fin 0, ac_finishShot = Fin 0,
       ac_defaultLength = Fin 5 \<rparr>"

definition sampleCamera :: cameraFields where
  "sampleCamera =
     \<lparr> cam_cameraType = Fin 2, cam_target = ''Bilbo'', cam_relative = Fin 0,
       cam_startOrient = (Fin 0, Fin 0, Fin 0), cam_endOrient = (Fin 0, Fin 0, Fin 0),
       cam_startOffset = (Fin (- 3 / 2), Fin 0, Fin 2), cam_endOffset = (Fin 0, Fin 0, Fin 0),
       cam_targetOffset = (Fin 0, Fin 0, Fin 0), cam_startFOV = Fin 1, cam_endFOV = Fin 1,
       cam_transitionPop = Fin 0, cam_loop = Fin 0, cam_endSyncPoint = Fin (- 1) \<rparr>"

definition sampleDialog :: dialogFields where
  "sampleDialog =
     \<lparr> dlg_speaker = ''Gandalf'', dlg_sample = ''hello there'', dlg_forceEnd = Fin 0,
       dlg_positional = Fin 1 \<rparr>"

definition sampleCinema :: cinemaObject where
  "sampleCinema =
     emptyCinema
     \<lparr> guid := ''G'', shots := [sampleShot, sampleShot], syncPoints := [staleSyncPoint],
       actions := [CameraAction sampleBase sampleCamera, DialogAction sampleBase sampleDialog],
       participants := [''Bilbo'', ''Gandalf''],
       cameraPaths := [sampleCameraPath] \<rparr>"

definition oddCinema :: cinemaObject where
  "oddCinema = sampleCinema\<lparr> shots := [quoteShot, nanShot] \<rparr>"


section \<open>Evaluation and digit lemmas\<close>

lemma digitChar_simps:
  "digitChar 0 = CHR ''0''" "digitChar 1 = CHR ''1''" "digitChar 2 = CHR ''2''"
  "digitChar 3 = CHR ''3''" "digitChar 4 = CHR ''4''" "digitChar 5 = CHR ''5''"
  "digitChar 6 = CHR ''6''" "digitChar 7 = CHR ''7''" "digitChar 8 = CHR ''8''"
  "digitChar 9 = CHR ''9''"
  by (simp_all add: digitChar_def)

lemma digitChar_Suc0 [simp]: "digitChar (Suc 0) = CHR ''1''"
  by (simp add: digitChar_def)

lemma floor_rat_div_numeral:
  "\<lfloor>numeral a / numeral b :: rat\<rfloor> = numeral a div numeral b"
  using floor_divide_of_int_eq [of "numeral a" "numeral b", where ?'a = rat] by simp

lemma floor_rat_neg_div_numeral:
  "\<lfloor>- (numeral a / numeral b) :: rat\<rfloor> = - numeral a div numeral b"
  using floor_divide_of_int_eq [of "- numeral a" "numeral b", where ?'a = rat] by simp

lemma floor_rat_one_div_numeral:
  "\<lfloor>1 / numeral b :: rat\<rfloor> = 1 div numeral b"
  using floor_divide_of_int_eq [of 1 "numeral b", where ?'a = rat] by simp

lemma floor_rat_neg_one_div_numeral:
  "\<lfloor>- (1 / numeral b) :: rat\<rfloor> = - 1 div numeral b"
  using floor_divide_of_int_eq [of "- 1" "numeral b", where ?'a = rat] by simp

lemmas floor_eval = floor_rat_div_numeral floor_rat_neg_div_numeral
  floor_rat_one_div_numeral floor_rat_neg_one_div_numeral

lemma less_10_cases:
  "(d :: nat) < 10 \<Longrightarrow> d = 0 \<or> d = 1 \<or> d = 2 \<or> d = 3 \<or> d = 4 \<or> d = 5 \<or> d = 6 \<or> d = 7 \<or> d = 8 \<or> d = 9"
  by arith

lemma isDigit_digitChar: "d < 10 \<Longrightarrow> isDigit (digitChar d)"
  by (drule less_10_cases) (auto simp: isDigit_def digitChar_simps)

lemma showNat_small: "n < 10 \<Longrightarrow> showNat n = [digitChar n]"
  by (subst showNat.simps) simp

lemma showNat_step: "10 \<le> n \<Longrightarrow> showNat n = showNat (n div 10) @ [digitChar (n mod 10)]"
  by (subst showNat.simps) simp

lemmas showNat_eval = showNat_small showNat_step digitChar_simps

lemma showNat_digits: "list_all isDigit (showNat n)"
proof (induction n rule: showNat.induct)
  case (1 n)
  show ?case
  proof (cases "n < 10")
    case True
    then show ?thesis by (simp add: showNat_small isDigit_digitChar)
  next
    case False
    then show ?thesis
      using 1 by (simp add: showNat_step isDigit_digitChar)
  qed
qed

lemma showNat_nonempty: "showNat n \<noteq> []"
  by (subst showNat.simps) simp

lemma fracDigits_zero: "fracDigits n 0 = []"
  by (cases n) simp_all

lemma posToString_of_nat:
  assumes "0 < m" and "m < 10 ^ 21"
  shows "posToString (of_nat m) = showNat m"
proof -
  have "\<not> (10 ^ 21 \<le> (of_nat m :: rat))"
    using assms(2) by (metis of_nat_less_iff of_nat_numeral of_nat_power not_le)
  moreover have "\<not> ((of_nat m :: rat) < 1 / 10 ^ 6)"
  proof -
    have "(1 :: rat) \<le> of_nat m" using assms(1) by simp
    moreover have "(1 / 10 ^ 6 :: rat) < 1" by simp
    ultimately show ?thesis by linarith
  qed
  ultimately show ?thesis
    by (simp add: posToString_def fracDigits_zero Let_def)
qed

lemma numToString_of_int:
  assumes "\<bar>z\<bar> < 10 ^ 21"
  shows "numToString (Fin (of_int z)) = decimalOfInt z"
proof -
  consider "z = 0" | "z < 0" | "0 < z" by linarith
  then show ?thesis
  proof cases
    case 1
    then show ?thesis
      by (simp add: decimalOfInt_def showNat_eval)
  next
    case 2
    then have "posToString (of_nat (nat (- z))) = showNat (nat (- z))"
      using assms by (intro posToString_of_nat) auto
    moreover have "(of_nat (nat (- z)) :: rat) = - of_int z"
      using 2 by simp
    ultimately show ?thesis
      using 2 by (simp add: decimalOfInt_def)
  next
    case 3
    then have "posToString (of_nat (nat z)) = showNat (nat z)"
      using assms by (intro posToString_of_nat) auto
    moreover have "(of_nat (nat z) :: rat) = of_int z"
      using 3 by simp
    ultimately show ?thesis
      using 3 by (simp add: decimalOfInt_def)
  qed
qed

lemma numToString_of_nat:
  "n < 10 ^ 21 \<Longrightarrow> numToString (Fin (of_nat n)) = showNat n"
  using numToString_of_int [of "int n"] by (simp add: decimalOfInt_def)

lemmas num_eval = parseIntVal_def parseFloatVal_def parseFloat_def parseUnsigned_def
  isDigit_def isSpace_def digitsToNat_def digitVal_def exponentPart_def scale10_def
  parseTriple_def parseSix_def parseQuad_def nthOrZero_def

lemma parse_defaults:
  "parseIntVal ''0'' = Fin 0" "parseIntVal ''1'' = Fin 1" "parseIntVal ''4'' = Fin 4"
  "parseIntVal ''432'' = Fin 432"
  "parseFloatVal ''0'' = Fin 0" "parseFloatVal ''1'' = Fin 1" "parseFloatVal ''10'' = Fin 10"
  "parseFloatVal ''20'' = Fin 20" "parseFloatVal ''0.15'' = Fin (15 / 100)"
  "parseFloatVal ''1.256637'' = Fin (1256637 / 1000000)"
  "parseTriple ''0 0 0'' = (Fin 0, Fin 0, Fin 0)"
  "parseTriple ''1 1 1'' = (Fin 1, Fin 1, Fin 1)"
  "parseSix ''0 0 0 0 0 0'' = (Fin 0, Fin 0, Fin 0, Fin 0, Fin 0, Fin 0)"
  "parseSix ''-1 -1 -1 1 1 1'' = (Fin (- 1), Fin (- 1), Fin (- 1), Fin 1, Fin 1, Fin 1)"
  "parseQuad ''0 0 0 255'' = (Fin 0, Fin 0, Fin 0, Fin 255)"
  by (simp_all add: num_eval)

lemmas str_eval = trim_def isSpace_def dquote_def bslash_def newline_def pushToken_def
  tokenize_def nthOpt_def orElse_def parseString_def fieldNameOf_def fieldTypeOf_def tokenOr0_def
  matchIndexedAt_def isDigit_def

lemmas loop_eval = parseCinemaFile_def fileLoop.simps parseSingleCinema_def parseLoop.simps
  loopBody_def parseValues_def participantsLoop.simps keyframesLoop.simps


text \<open>The turn of the decoder's loop, branch by branch.\<close>

lemma loopBody_return:
  "startsWith (trim (lines ! i)) ''[ Cinema :'' \<Longrightarrow> guid c \<noteq> [] \<Longrightarrow>
     loopBody u lines i c k = Inr (Return c i k)"
  by (simp add: loopBody_def Let_def)

lemma loopBody_header:
  "startsWith (trim (lines ! i)) ''[ Cinema :'' \<Longrightarrow> guid c = [] \<Longrightarrow>
     loopBody u lines i c k =
       (case parseValues (nthOpt lines (i + 1)) (nthOpt lines (i + 2)) of
          Inl e \<Rightarrow> Inl e
        | Inr v \<Rightarrow> Inr (Continue (i + 3) (decodeCinemaHeader v c) k))"
  by (simp add: loopBody_def Let_def)

lemma loopBody_shot:
  "\<not> startsWith (trim (lines ! i)) ''[ Cinema :'' \<Longrightarrow>
   matchIndexed ''Shot'' (trim (lines ! i)) = Some ds \<Longrightarrow>
     loopBody u lines i c k =
       (case parseValues (nthOpt lines (i + 1)) (nthOpt lines (i + 2)) of
          Inl e \<Rightarrow> Inl e
        | Inr v \<Rightarrow>
            Inr (Continue (i + 3) (c\<lparr>shots := shots c @ [decodeShot (u k) (parseIntVal ds) v]\<rparr>)
                  (k + 1)))"
  by (simp add: loopBody_def Let_def)

lemma loopBody_syncPoint:
  "\<not> startsWith (trim (lines ! i)) ''[ Cinema :'' \<Longrightarrow>
   matchIndexed ''Shot'' (trim (lines ! i)) = None \<Longrightarrow>
   matchIndexed ''SyncPoint'' (trim (lines ! i)) = Some ds \<Longrightarrow>
     loopBody u lines i c k =
       (case parseValues (nthOpt lines (i + 1)) (nthOpt lines (i + 2)) of
          Inl e \<Rightarrow> Inl e
        | Inr v \<Rightarrow>
            Inr (Continue (i + 3)
                  (c\<lparr>syncPoints := syncPoints c @ [decodeSyncPoint (u k) (parseIntVal ds) v]\<rparr>)
                  (k + 1)))"
  by (simp add: loopBody_def Let_def)

lemma loopBody_action:
  "\<not> startsWith (trim (lines ! i)) ''[ Cinema :'' \<Longrightarrow>
   matchIndexed ''Shot'' (trim (lines ! i)) = None \<Longrightarrow>
   matchIndexed ''SyncPoint'' (trim (lines ! i)) = None \<Longrightarrow>
   matchIndexed ''Action'' (trim (lines ! i)) = Some ds \<Longrightarrow>
     loopBody u lines i c k =
       (case parseValues (nthOpt lines (i + 1)) (nthOpt lines (i + 2)) of
          Inl e \<Rightarrow> Inl e
        | Inr v \<Rightarrow>
            Inr (Continue (i + 3)
                  (c\<lparr>actions := actions c @ [decodeAction (u k) (parseIntVal ds) v]\<rparr>)
                  (k + 1)))"
  by (simp add: loopBody_def Let_def)

lemma loopBody_participants:
  "plainLine (trim (lines ! i)) \<Longrightarrow> startsWith (trim (lines ! i)) ''[ Participants :'' \<Longrightarrow>
     loopBody u lines i c k =
       Inr (Continue (fst (participantsLoop lines (i + 2) (participants c)))
             (c\<lparr>participants := snd (participantsLoop lines (i + 2) (participants c))\<rparr>) k)"
  by (simp add: loopBody_def Let_def plainLine_def split: prod.splits)

lemma loopBody_cameraPath:
  "plainLine (trim (lines ! i)) \<Longrightarrow> \<not> startsWith (trim (lines ! i)) ''[ Participants :'' \<Longrightarrow>
   startsWith (trim (lines ! i)) ''[ CameraPath :'' \<Longrightarrow>
     loopBody u lines i c k =
       (case parseValues (nthOpt lines (i + 1)) (nthOpt lines (i + 2)) of
          Inl e \<Rightarrow> Inl e
        | Inr v \<Rightarrow>
            Inr (Continue
                  (if i + 3 < length lines \<and> startsWith (trim (lines ! (i + 3))) ''[ Keyframes :''
                   then fst (keyframesLoop lines (i + 5) []) else i + 3)
                  (c\<lparr>cameraPaths := cameraPaths c @
                      [(decodeCameraPath (u k) v)
                         \<lparr>cp_keyframes :=
                            (if sectionKeyframes lines i = [] then [createDefaultKeyframe]
                             else sectionKeyframes lines i)\<rparr>]\<rparr>)
                  (k + 1)))"
proof (cases "i + 3 < length lines \<and> startsWith (trim (lines ! (i + 3))) ''[ Keyframes :''")
  case True
  assume "plainLine (trim (lines ! i))" "\<not> startsWith (trim (lines ! i)) ''[ Participants :''"
    "startsWith (trim (lines ! i)) ''[ CameraPath :''"
  then show ?thesis
    using True
    by (cases "keyframesLoop lines (i + 5) []")
       (simp add: loopBody_def Let_def plainLine_def sectionKeyframes_def split: sum.splits)
next
  case False
  assume "plainLine (trim (lines ! i))" "\<not> startsWith (trim (lines ! i)) ''[ Participants :''"
    "startsWith (trim (lines ! i)) ''[ CameraPath :''"
  then show ?thesis
    using False
    by (auto simp: loopBody_def Let_def plainLine_def sectionKeyframes_def split: sum.splits)
qed

lemma loopBody_other:
  "plainLine (trim (lines ! i)) \<Longrightarrow> \<not> startsWith (trim (lines ! i)) ''[ Participants :'' \<Longrightarrow>
   \<not> startsWith (trim (lines ! i)) ''[ CameraPath :'' \<Longrightarrow>
     loopBody u lines i c k = Inr (Continue (i + 1) c k)"
  by (simp add: loopBody_def Let_def plainLine_def)


text \<open>A formatter called with a width gives the rendering without a width, followed by spaces
  up to that width.\<close>

lemma formatInt_pad:
  "formatInt n w =
     numToString (mathFloor n) @ replicate (w - length (numToString (mathFloor n))) CHR '' ''"
  by (simp add: formatInt_def padEnd_def Let_def)

lemma formatFloat_pad:
  "formatFloat n w = formatFloat n 0 @ replicate (w - length (formatFloat n 0)) CHR '' ''"
  by (simp add: formatFloat_def padEnd_def Let_def)

lemma replicate_numeral: "replicate (numeral k) x = x # replicate (pred_numeral k) x"
  by (simp add: numeral_eq_Suc)

section \<open>The integer formatters\<close>

text \<open>At \<open>-1.5\<close> the integer formatter prints \<open>-2\<close>, the floor, where truncation toward zero
  gives \<open>-1\<close>; with the width 6 of a keyframe field as without a width.\<close>

theorem formatInt_not_truncation:
  "formatInt (Fin (- 3 / 2)) 6 = ''-2    ''
   \<and> numToString (Fin (of_int (truncTowardZero (- 3 / 2)))) = ''-1''
   \<and> formatInt (Fin (- 3 / 2)) 6 \<noteq> ''-1    ''
   \<and> formatInt (Fin (- 3 / 2)) 0 = ''-2''
   \<and> formatInt (Fin (- 3 / 2)) 0 \<noteq> numToString (Fin (of_int (truncTowardZero (- 3 / 2))))"
proof -
  have r: "numToString (Fin (- 2)) = ''-2''" "numToString (Fin (- 1)) = ''-1''"
    using numToString_of_int [of "- 2"] numToString_of_int [of "- 1"]
    by (simp_all add: decimalOfInt_def showNat_eval del: numToString.simps)
  show ?thesis
    by (simp add: formatInt_pad truncTowardZero_def floor_eval r replicate_numeral
        del: numToString.simps)
qed

text \<open>C3 (as amended). For every finite \<open>n\<close> and every width, \<open>formatInt\<close> renders
  \<open>Math.floor(n)\<close>, the rounding toward negative infinity, followed by spaces up to the width
  (none without a width, and never before the sign), and each component of \<open>formatQuadInt\<close>
  renders the floor of its number; below \<open>10\<^sup>2\<^sup>1\<close> in magnitude the rendering is the plain
  base-10 numeral with a minus sign for a negative value. The floor is the truncation toward
  zero exactly when \<open>n\<close> is not negative or is an integer.\<close>

theorem formatInt_floor:
  "formatInt (Fin r) w =
     numToString (Fin (of_int \<lfloor>r\<rfloor>))
       @ replicate (w - length (numToString (Fin (of_int \<lfloor>r\<rfloor>)))) CHR '' ''
   \<and> formatQuadInt (Fin a, Fin b, Fin c, Fin d) =
       numToString (Fin (of_int \<lfloor>a\<rfloor>)) @ '' '' @ numToString (Fin (of_int \<lfloor>b\<rfloor>)) @ '' ''
         @ numToString (Fin (of_int \<lfloor>c\<rfloor>)) @ '' '' @ numToString (Fin (of_int \<lfloor>d\<rfloor>))
   \<and> (\<bar>\<lfloor>r\<rfloor>\<bar> < 10 ^ 21 \<longrightarrow> numToString (Fin (of_int \<lfloor>r\<rfloor>)) = decimalOfInt \<lfloor>r\<rfloor>)
   \<and> (\<lfloor>r\<rfloor> = truncTowardZero r \<longleftrightarrow> 0 \<le> r \<or> r \<in> \<int>)"
proof -
  have "\<lfloor>r\<rfloor> = truncTowardZero r \<longleftrightarrow> 0 \<le> r \<or> r \<in> \<int>"
  proof (cases "r < 0")
    case False
    then show ?thesis by (simp add: truncTowardZero_def)
  next
    case True
    have "\<lfloor>r\<rfloor> = - \<lfloor>- r\<rfloor> \<longleftrightarrow> r \<in> \<int>"
    proof
      assume "\<lfloor>r\<rfloor> = - \<lfloor>- r\<rfloor>"
      then have "of_int \<lfloor>r\<rfloor> = - (of_int \<lfloor>- r\<rfloor> :: rat)" by simp
      moreover have "of_int \<lfloor>r\<rfloor> \<le> r" "of_int \<lfloor>- r\<rfloor> \<le> - r" by simp_all
      ultimately have "r = of_int \<lfloor>r\<rfloor>" by linarith
      then show "r \<in> \<int>" by (metis Ints_of_int)
    next
      assume "r \<in> \<int>"
      then obtain z where "r = of_int z" by (auto elim: Ints_cases)
      then show "\<lfloor>r\<rfloor> = - \<lfloor>- r\<rfloor>" by simp
    qed
    with True show ?thesis by (simp add: truncTowardZero_def)
  qed
  then show ?thesis
    by (simp add: formatInt_pad formatQuadInt_def numToString_of_int del: numToString.simps)
qed

theorem formatInt_floor_witness:
  "formatInt (Fin (- 3 / 2)) 6 = ''-2    ''
   \<and> formatInt (Fin (5 / 2)) 16 = ''2               ''
   \<and> formatInt (Fin (- 3 / 2)) 0 = ''-2''
   \<and> formatQuadInt (Fin 0, Fin 0, Fin (- 1 / 2), Fin 255) = ''0 0 -1 255''"
proof -
  have r: "numToString (Fin (- 2)) = ''-2''" "numToString (Fin (- 1)) = ''-1''"
    "numToString (Fin 255) = ''255''" "numToString (Fin 0) = ''0''" "numToString (Fin 2) = ''2''"
    using numToString_of_int [of "- 2"] numToString_of_int [of "- 1"]
      numToString_of_int [of 255] numToString_of_int [of 0] numToString_of_int [of 2]
    by (simp_all add: decimalOfInt_def showNat_eval del: numToString.simps)
  show ?thesis
    using formatInt_floor [of "- 3 / 2" 6 0 0 "- 1 / 2" 255] formatInt_floor [of "5 / 2" 16]
      formatInt_floor [of "- 3 / 2" 0]
    by (simp add: floor_eval r replicate_numeral del: numToString.simps)
qed

section \<open>The float formatter\<close>

lemma isDigit_not_point: "isDigit c \<Longrightarrow> c \<noteq> CHR ''.''"
  by (auto simp: isDigit_def)

lemma digits_no_point: "list_all isDigit s \<Longrightarrow> CHR ''.'' \<notin> set s"
  by (auto simp: list_all_iff dest: isDigit_not_point)

lemma replaceTrailingZeros_no_point: "CHR ''.'' \<notin> set s \<Longrightarrow> replaceTrailingZeros s = s"
  by (induction s) auto

lemma dropTrailingZeros_Cons:
  "dropTrailingZeros (x # xs) =
     (if dropTrailingZeros xs = [] then (if x = CHR ''0'' then [] else [x])
      else x # dropTrailingZeros xs)"
  by (auto simp: dropTrailingZeros_def dropWhile_append split: if_splits)

lemma dropTrailingZeros_Nil [simp]: "dropTrailingZeros [] = []"
  by (simp add: dropTrailingZeros_def)

lemma dropTrailingZeros_last: "s \<noteq> [] \<Longrightarrow> last s \<noteq> CHR ''0'' \<Longrightarrow> dropTrailingZeros s = s"
  by (cases s rule: rev_cases) (auto simp: dropTrailingZeros_def)

lemma replaceTrailingZeros_shape:
  assumes "CHR ''.'' \<notin> set pre" and "list_all isDigit fr"
  shows "replaceTrailingZeros (pre @ ''.'' @ fr) = pre @ ''.'' @ dropTrailingZeros fr"
  using assms
proof (induction pre)
  case Nil
  show ?case
  proof (cases "fr \<noteq> [] \<and> last fr = CHR ''0''")
    case True
    then show ?thesis using Nil by simp
  next
    case False
    then have "dropTrailingZeros fr = fr"
      by (cases "fr = []") (auto simp: dropTrailingZeros_last)
    moreover have "replaceTrailingZeros fr = fr"
      using Nil by (intro replaceTrailingZeros_no_point digits_no_point)
    ultimately show ?thesis using False by auto
  qed
next
  case (Cons c pre)
  then show ?case by auto
qed

lemma keepTwo_equiv:
  assumes "2 \<le> length fr"
  shows "(if dropTrailingZeros fr = [] then ''00''
          else if length (dropTrailingZeros fr) = 1 then dropTrailingZeros fr @ ''0''
          else dropTrailingZeros fr)
         = take 2 fr @ dropTrailingZeros (drop 2 fr)"
proof -
  obtain a b rest where fr: "fr = a # b # rest"
    using assms by (cases fr; cases "tl fr") auto
  show ?thesis
    unfolding fr by (auto simp: dropTrailingZeros_Cons split: if_splits)
qed


lemma isDigit_zero: "isDigit CHR ''0''"
  by (simp add: isDigit_def)

lemma toFixed6_shape:
  assumes "\<bar>r\<bar> < 10 ^ 21"
  shows "\<exists>ip fr. toFixed6 (Fin r) = (if r < 0 then ''-'' else []) @ ip @ ''.'' @ fr
           \<and> ip \<noteq> [] \<and> list_all isDigit ip \<and> list_all isDigit fr \<and> length fr = 6"
proof -
  define m where "m = showNat (nat \<lfloor>\<bar>r\<bar> * 10 ^ 6 + 1 / 2\<rfloor>)"
  define m' where "m' = replicate (7 - length m) CHR ''0'' @ m"
  have len: "7 \<le> length m'" by (simp add: m'_def)
  have dig: "list_all isDigit m'"
    using showNat_digits [of "nat \<lfloor>\<bar>r\<bar> * 10 ^ 6 + 1 / 2\<rfloor>"]
    by (auto simp: m'_def m_def isDigit_zero list_all_iff)
  have fx: "toFixed6 (Fin r) =
      (if r < 0 then ''-'' else []) @ take (length m' - 6) m' @ ''.'' @ drop (length m' - 6) m'"
    using assms by (simp add: toFixed6_def Let_def m'_def m_def)
  have "take (length m' - 6) m' \<noteq> []" using len by auto
  moreover have "list_all isDigit (take (length m' - 6) m')"
    using dig by (auto simp: list_all_iff dest: in_set_takeD)
  moreover have "list_all isDigit (drop (length m' - 6) m')"
    using dig by (auto simp: list_all_iff dest: in_set_dropD)
  moreover have "length (drop (length m' - 6) m') = 6" using len by simp
  ultimately show ?thesis using fx by blast
qed

lemma fracDigits_eq_Nil: "fracDigits (Suc n) x = [] \<longleftrightarrow> x = 0"
  by simp

lemma fracDigits_digits: "0 \<le> x \<Longrightarrow> x < 1 \<Longrightarrow> list_all isDigit (fracDigits n x)"
proof (induction n arbitrary: x)
  case 0
  then show ?case by simp
next
  case (Suc n)
  have lo: "0 \<le> \<lfloor>x * 10\<rfloor>" using Suc.prems by simp
  have "x * 10 < of_int 10" using Suc.prems by simp
  then have hi: "\<lfloor>x * 10\<rfloor> < 10" by (simp only: floor_less_iff)
  have "nat \<lfloor>x * 10\<rfloor> < 10" using lo hi by linarith
  then have d: "isDigit (digitChar (nat \<lfloor>x * 10\<rfloor>))" by (rule isDigit_digitChar)
  have "0 \<le> x * 10 - of_int \<lfloor>x * 10\<rfloor>" "x * 10 - of_int \<lfloor>x * 10\<rfloor> < 1"
    by linarith+
  then have "list_all isDigit (fracDigits n (x * 10 - of_int \<lfloor>x * 10\<rfloor>))"
    by (rule Suc.IH)
  with d show ?case by simp
qed

lemma posToString_point_iff:
  assumes "1 / 10 ^ 6 \<le> q" and "q < 10 ^ 21"
  shows "CHR ''.'' \<in> set (posToString q) \<longleftrightarrow> q \<notin> \<int>"
proof -
  define fd where "fd = fracDigits 1074 (q - of_int \<lfloor>q\<rfloor>)"
  have "(1074 :: nat) = Suc 1073" by simp
  then have "fd = [] \<longleftrightarrow> q - of_int \<lfloor>q\<rfloor> = 0"
    unfolding fd_def by (simp only: fracDigits_eq_Nil)
  also have "\<dots> \<longleftrightarrow> q \<in> \<int>"
    by (metis Ints_of_int diff_eq_diff_eq diff_self floor_of_int Ints_cases eq_iff_diff_eq_0)
  finally have nil: "fd = [] \<longleftrightarrow> q \<in> \<int>" .
  have "0 \<le> q - of_int \<lfloor>q\<rfloor>" "q - of_int \<lfloor>q\<rfloor> < 1" by linarith+
  then have "list_all isDigit fd" unfolding fd_def by (rule fracDigits_digits)
  then have nofd: "CHR ''.'' \<notin> set (showNat (nat \<lfloor>q\<rfloor>))"
    by (intro digits_no_point showNat_digits)
  have "posToString q = (if fd = [] then showNat (nat \<lfloor>q\<rfloor>) else showNat (nat \<lfloor>q\<rfloor>) @ ''.'' @ fd)"
    using assms by (simp add: posToString_def Let_def fd_def not_le [symmetric])
  then show ?thesis using nil nofd by auto
qed

lemma numToString_point_iff:
  assumes "1 / 10 ^ 6 \<le> \<bar>r\<bar>" and "\<bar>r\<bar> < 10 ^ 21"
  shows "CHR ''.'' \<in> set (numToString (Fin r)) \<longleftrightarrow> r \<notin> \<int>"
proof (cases "r < 0")
  case True
  then have "CHR ''.'' \<in> set (posToString (- r)) \<longleftrightarrow> - r \<notin> \<int>"
    using assms by (intro posToString_point_iff) auto
  then show ?thesis using True by (auto simp: minus_in_Ints_iff)
next
  case False
  have "r \<noteq> 0" using assms(1) by auto
  moreover have "CHR ''.'' \<in> set (posToString r) \<longleftrightarrow> r \<notin> \<int>"
    using assms False by (intro posToString_point_iff) auto
  ultimately show ?thesis using False by auto
qed

lemma decimalOfInt_no_point: "CHR ''.'' \<notin> set (decimalOfInt z)"
  using digits_no_point [OF showNat_digits] by (auto simp: decimalOfInt_def)

lemma takeWhile_before_point:
  "CHR ''.'' \<notin> set pre \<Longrightarrow> takeWhile (\<lambda>c. c \<noteq> CHR ''.'') (pre @ CHR ''.'' # fr) = pre"
  by (induction pre) auto

lemma formatFloat_code_eq_spec:
  assumes "\<bar>r\<bar> < 10 ^ 21"
  shows "formatFloat (Fin r) 0 =
     (if CHR ''.'' \<in> set (numToString (Fin r)) then stripZerosKeepTwo (toFixed6 (Fin r))
      else toFixed6 (Fin r))"
proof -
  obtain ip fr where fx: "toFixed6 (Fin r) = (if r < 0 then ''-'' else []) @ ip @ ''.'' @ fr"
    and ip: "ip \<noteq> []" "list_all isDigit ip" and fr: "list_all isDigit fr" "length fr = 6"
    using toFixed6_shape [OF assms] by blast
  define pre where "pre = (if r < 0 then ''-'' else []) @ ip"
  have pre: "CHR ''.'' \<notin> set pre"
    using digits_no_point [OF ip(2)] by (auto simp: pre_def)
  have fx': "toFixed6 (Fin r) = pre @ ''.'' @ fr" by (simp add: fx pre_def)
  define fr' where "fr' = dropTrailingZeros fr"
  have fr'dig: "list_all isDigit fr'"
    using fr(1) unfolding fr'_def dropTrailingZeros_def
    by (auto simp: list_all_iff dest: set_dropWhileD)
  have rep: "replaceTrailingZeros (toFixed6 (Fin r)) = pre @ ''.'' @ fr'"
    unfolding fx' fr'_def using pre fr(1) by (rule replaceTrailingZeros_shape)
  have e1: "endsWith (pre @ ''.'' @ fr') ''.'' \<longleftrightarrow> fr' = []"
    using digits_no_point [OF fr'dig]
    by (cases fr' rule: rev_cases) (auto simp: endsWith_def)
  have e2: "fr' \<noteq> [] \<Longrightarrow> endsPointDigit (pre @ ''.'' @ fr') \<longleftrightarrow> length fr' = 1"
  proof -
    assume "fr' \<noteq> []"
    then obtain ys y where y: "fr' = ys @ [y]" by (cases fr' rule: rev_cases) auto
    have yd: "isDigit y" using fr'dig y by simp
    show ?thesis
    proof (cases ys rule: rev_cases)
      case Nil
      then show ?thesis using y yd by (simp add: endsPointDigit_def)
    next
      case (snoc zs z)
      then have "isDigit z" using fr'dig y by simp
      then have "z \<noteq> CHR ''.''" by (rule isDigit_not_point)
      then show ?thesis using y snoc by (simp add: endsPointDigit_def)
    qed
  qed
  have code: "(if endsWith (pre @ ''.'' @ fr') ''.'' then (pre @ ''.'' @ fr') @ ''00''
               else if endsPointDigit (pre @ ''.'' @ fr') then (pre @ ''.'' @ fr') @ ''0''
               else pre @ ''.'' @ fr')
      = pre @ ''.'' @ (if fr' = [] then ''00''
                       else if length fr' = 1 then fr' @ ''0'' else fr')"
    using e1 e2 by auto
  have spec: "stripZerosKeepTwo (pre @ ''.'' @ fr) = pre @ ''.'' @ take 2 fr @ dropTrailingZeros (drop 2 fr)"
    using pre by (simp add: stripZerosKeepTwo_def takeWhile_before_point Let_def)
  have "2 \<le> length fr" using fr(2) by simp
  then have "(if fr' = [] then ''00'' else if length fr' = 1 then fr' @ ''0'' else fr')
      = take 2 fr @ dropTrailingZeros (drop 2 fr)"
    unfolding fr'_def by (rule keepTwo_equiv)
  then have k: "pre @ ''.'' @ (if fr' = [] then ''00''
                       else if length fr' = 1 then fr' @ ''0'' else fr')
      = stripZerosKeepTwo (toFixed6 (Fin r))"
    by (simp only: spec fx')
  have ff: "formatFloat (Fin r) 0 =
      (if CHR ''.'' \<in> set (numToString (Fin r)) then
         (if endsWith (pre @ ''.'' @ fr') ''.'' then (pre @ ''.'' @ fr') @ ''00''
          else if endsPointDigit (pre @ ''.'' @ fr') then (pre @ ''.'' @ fr') @ ''0''
          else pre @ ''.'' @ fr')
       else toFixed6 (Fin r))"
    unfolding formatFloat_def Let_def rep by simp
  show ?thesis
    by (simp only: ff code k)
qed


lemma formatFloat_integer:
  assumes "\<bar>r\<bar> < 10 ^ 21" and "r \<in> \<int>"
  shows "formatFloat (Fin r) 0 = toFixed6 (Fin r)"
proof -
  obtain z :: int where z: "r = of_int z" using assms(2) by (auto elim: Ints_cases)
  have "(of_int \<bar>z\<bar> :: rat) < of_int (10 ^ 21)" using assms(1) z by simp
  then have "\<bar>z\<bar> < 10 ^ 21" by (simp only: of_int_less_iff)
  then have "numToString (Fin r) = decimalOfInt z"
    unfolding z by (rule numToString_of_int)
  then have "CHR ''.'' \<notin> set (numToString (Fin r))"
    by (simp add: decimalOfInt_no_point del: numToString.simps)
  then show ?thesis
    using formatFloat_code_eq_spec [OF assms(1)] by (simp del: numToString.simps)
qed

lemma formatFloat_fraction:
  assumes "\<bar>r\<bar> < 10 ^ 21" and "r \<notin> \<int>" and "1 / 10 ^ 6 \<le> \<bar>r\<bar>"
  shows "formatFloat (Fin r) 0 = stripZerosKeepTwo (toFixed6 (Fin r))"
  using formatFloat_code_eq_spec [OF assms(1)] numToString_point_iff [OF assms(3,1)] assms(2)
  by (simp del: numToString.simps)


text \<open>The number 1 has the rendering \<open>1\<close> without a point, so the formatter leaves all six
  fractional digits of \<open>toFixed(6)\<close>: the result is \<open>1.000000\<close>, not \<open>1.00\<close>, and with the
  width 10 of the Duration field it is the same followed by two spaces.\<close>

theorem formatFloat_integer_not_stripped:
  "formatFloat (Fin 1) 0 = ''1.000000'' \<and> formatFloat (Fin 1) 0 \<noteq> ''1.00''
   \<and> formatFloat (Fin 1) 10 = ''1.000000  '' \<and> formatFloat (Fin 1) 10 \<noteq> ''1.00      ''"
proof -
  have "formatFloat (Fin 1) 0 = ''1.000000''"
    by (simp add: formatFloat_def toFixed6_def posToString_def showNat_eval fracDigits_zero
        floor_eval Let_def)
  then show ?thesis
    using formatFloat_pad [of "Fin 1" 10] by (simp add: replicate_numeral)
qed


text \<open>C2 (as amended). For every finite \<open>n\<close> below \<open>10\<^sup>2\<^sup>1\<close> in magnitude,
  \<open>toFixed(6)\<close> renders \<open>n\<close> with exactly six fractional digits. When the rendering of
  \<open>n.toString()\<close> contains a point, which from \<open>10\<^sup>-\<^sup>6\<close> on means that \<open>n\<close> is not an
  integer, the formatter strips the trailing zeros and keeps at least two fractional digits;
  otherwise, so for every integer, it returns the six digits unchanged. With a width the
  result is this rendering followed by spaces up to the width, and the rendering alone
  without one.\<close>

theorem formatFloat_render:
  "\<bar>r\<bar> < 10 ^ 21 \<longrightarrow>
     (formatFloat (Fin r) 0 =
        (if CHR ''.'' \<in> set (numToString (Fin r)) then stripZerosKeepTwo (toFixed6 (Fin r))
         else toFixed6 (Fin r)))
     \<and> formatFloat (Fin r) w =
          (if CHR ''.'' \<in> set (numToString (Fin r)) then stripZerosKeepTwo (toFixed6 (Fin r))
           else toFixed6 (Fin r))
          @ replicate
              (w - length (if CHR ''.'' \<in> set (numToString (Fin r))
                           then stripZerosKeepTwo (toFixed6 (Fin r)) else toFixed6 (Fin r)))
              CHR '' ''
     \<and> (r \<in> \<int> \<longrightarrow>
          formatFloat (Fin r) w
            = toFixed6 (Fin r) @ replicate (w - length (toFixed6 (Fin r))) CHR '' '')
     \<and> (r \<notin> \<int> \<and> 1 / 10 ^ 6 \<le> \<bar>r\<bar> \<longrightarrow>
          formatFloat (Fin r) w
            = stripZerosKeepTwo (toFixed6 (Fin r))
                @ replicate (w - length (stripZerosKeepTwo (toFixed6 (Fin r)))) CHR '' '')
     \<and> (\<exists>ip fr. toFixed6 (Fin r) = (if r < 0 then ''-'' else []) @ ip @ ''.'' @ fr
           \<and> ip \<noteq> [] \<and> list_all isDigit ip \<and> list_all isDigit fr \<and> length fr = 6)"
proof (intro impI conjI)
  assume bound: "\<bar>r\<bar> < 10 ^ 21"
  show z: "formatFloat (Fin r) 0 =
        (if CHR ''.'' \<in> set (numToString (Fin r)) then stripZerosKeepTwo (toFixed6 (Fin r))
         else toFixed6 (Fin r))"
    using bound by (rule formatFloat_code_eq_spec)
  show "formatFloat (Fin r) w =
          (if CHR ''.'' \<in> set (numToString (Fin r)) then stripZerosKeepTwo (toFixed6 (Fin r))
           else toFixed6 (Fin r))
          @ replicate
              (w - length (if CHR ''.'' \<in> set (numToString (Fin r))
                           then stripZerosKeepTwo (toFixed6 (Fin r)) else toFixed6 (Fin r)))
              CHR '' ''"
    using formatFloat_pad [of "Fin r" w] by (simp only: z)
  show "formatFloat (Fin r) w
            = toFixed6 (Fin r) @ replicate (w - length (toFixed6 (Fin r))) CHR '' ''"
    if "r \<in> \<int>"
    using formatFloat_pad [of "Fin r" w] formatFloat_integer [OF bound that] by (simp only:)
  show "formatFloat (Fin r) w
            = stripZerosKeepTwo (toFixed6 (Fin r))
                @ replicate (w - length (stripZerosKeepTwo (toFixed6 (Fin r)))) CHR '' ''"
    if "r \<notin> \<int> \<and> 1 / 10 ^ 6 \<le> \<bar>r\<bar>"
  proof -
    have "formatFloat (Fin r) 0 = stripZerosKeepTwo (toFixed6 (Fin r))"
      using bound that formatFloat_fraction by blast
    then show ?thesis using formatFloat_pad [of "Fin r" w] by (simp only:)
  qed
  show "\<exists>ip fr. toFixed6 (Fin r) = (if r < 0 then ''-'' else []) @ ip @ ''.'' @ fr
           \<and> ip \<noteq> [] \<and> list_all isDigit ip \<and> list_all isDigit fr \<and> length fr = 6"
    using bound by (rule toFixed6_shape)
qed

lemma toFixed6_three_halves: "toFixed6 (Fin (3 / 2)) = ''1.500000''"
  by (simp add: toFixed6_def showNat_eval floor_eval)

lemma toFixed6_fov: "toFixed6 (Fin (1256637 / 1000000)) = ''1.256637''"
  by (simp add: toFixed6_def showNat_eval floor_eval)


theorem formatFloat_render_witness:
  "formatFloat (Fin (3 / 2)) 0 = ''1.50''
   \<and> formatFloat (Fin (3 / 2)) 8 = ''1.50    ''
   \<and> formatFloat (Fin (1256637 / 1000000)) 0 = ''1.256637''
   \<and> formatFloat (Fin (1256637 / 1000000)) 12 = ''1.256637    ''
   \<and> formatFloat (Fin 1) 0 = ''1.000000''
   \<and> formatFloat (Fin 1) 10 = ''1.000000  ''"
proof -
  have a: "(3 / 2 :: rat) \<notin> \<int>"
  proof
    assume "(3 / 2 :: rat) \<in> \<int>"
    then obtain z :: int where "(3 / 2 :: rat) = of_int z" by (auto elim: Ints_cases)
    then have "(of_int (2 * z) :: rat) = of_int 3" by simp
    then have "2 * z = 3" by (simp only: of_int_eq_iff)
    then have "even (2 * z) = even (3 :: int)" by (rule arg_cong)
    then show False by simp
  qed
  have b: "(1256637 / 1000000 :: rat) \<notin> \<int>"
  proof
    assume "(1256637 / 1000000 :: rat) \<in> \<int>"
    then obtain z :: int where "(1256637 / 1000000 :: rat) = of_int z" by (auto elim: Ints_cases)
    then have "(of_int (1000000 * z) :: rat) = of_int 1256637" by simp
    then have "1000000 * z = 1256637" by (simp only: of_int_eq_iff)
    then have "even (1000000 * z) = even (1256637 :: int)" by (rule arg_cong)
    then show False by simp
  qed
  have a': "\<bar>3 / 2 :: rat\<bar> < 10 ^ 21" "1 / 10 ^ 6 \<le> \<bar>3 / 2 :: rat\<bar>" by simp_all
  have b': "\<bar>1256637 / 1000000 :: rat\<bar> < 10 ^ 21" "1 / 10 ^ 6 \<le> \<bar>1256637 / 1000000 :: rat\<bar>"
    by simp_all
  have c': "\<bar>1 :: rat\<bar> < 10 ^ 21" "(1 :: rat) \<in> \<int>" by simp_all
  have s: "stripZerosKeepTwo ''1.500000'' = ''1.50''"
    "stripZerosKeepTwo ''1.256637'' = ''1.256637''"
    by (simp_all add: stripZerosKeepTwo_def dropTrailingZeros_def)
  have one: "toFixed6 (Fin 1) = ''1.000000''"
    by (simp add: toFixed6_def showNat_eval floor_eval)
  have "formatFloat (Fin (3 / 2)) w
      = stripZerosKeepTwo (toFixed6 (Fin (3 / 2)))
          @ replicate (w - length (stripZerosKeepTwo (toFixed6 (Fin (3 / 2))))) CHR '' ''" for w
    using formatFloat_render [of "3 / 2" w] a a' by blast
  then have x: "formatFloat (Fin (3 / 2)) w = ''1.50'' @ replicate (w - 4) CHR '' ''" for w
    by (simp add: toFixed6_three_halves s)
  have "formatFloat (Fin (1256637 / 1000000)) w
      = stripZerosKeepTwo (toFixed6 (Fin (1256637 / 1000000)))
          @ replicate (w - length (stripZerosKeepTwo (toFixed6 (Fin (1256637 / 1000000)))))
              CHR '' ''" for w
    using formatFloat_render [of "1256637 / 1000000" w] b b' by blast
  then have y: "formatFloat (Fin (1256637 / 1000000)) w
      = ''1.256637'' @ replicate (w - 8) CHR '' ''" for w
    by (simp add: toFixed6_fov s)
  have "formatFloat (Fin 1) w
      = toFixed6 (Fin 1) @ replicate (w - length (toFixed6 (Fin 1))) CHR '' ''" for w
    using formatFloat_render [of 1 w] c' by blast
  then have z: "formatFloat (Fin 1) w = ''1.000000'' @ replicate (w - 8) CHR '' ''" for w
    by (simp add: one)
  show ?thesis
    by (simp add: x y z replicate_numeral)
qed

section \<open>The field-schema binder\<close>

lemma bindFields_exhausted:
  "length tokens \<le> ti \<Longrightarrow> bindFields fs tokens ti vals = vals"
  by (cases fs) simp_all

lemma bindFields_step:
  assumes "ti < length tokens"
  shows "\<exists>v. \<forall>rest. bindFields (f # rest) tokens ti vals
           = bindFields rest tokens (ti + fieldArity f) (vals(fieldNameOf f \<mapsto> v))"
  using assms by (auto simp: Let_def fieldArity_def)

lemma bindFields_dom:
  "dom (bindFields fs tokens ti vals) \<subseteq> dom vals \<union> fieldNameOf ` set fs"
proof (induction fs arbitrary: ti vals)
  case Nil
  show ?case by simp
next
  case (Cons f fs)
  show ?case
  proof (cases "length tokens \<le> ti")
    case True
    then show ?thesis by auto
  next
    case False
    then obtain v where
      "bindFields (f # fs) tokens ti vals
         = bindFields fs tokens (ti + fieldArity f) (vals(fieldNameOf f \<mapsto> v))"
      using bindFields_step [of ti tokens f vals] by auto
    moreover have "dom (bindFields fs tokens (ti + fieldArity f) (vals(fieldNameOf f \<mapsto> v)))
        \<subseteq> dom (vals(fieldNameOf f \<mapsto> v)) \<union> fieldNameOf ` set fs"
      by (rule Cons.IH)
    ultimately show ?thesis by auto
  qed
qed

lemma bindFields_stop:
  "length tokens \<le> ti + sum_list (map fieldArity fs1) \<Longrightarrow>
     bindFields (fs1 @ fs2) tokens ti vals = bindFields fs1 tokens ti vals"
proof (induction fs1 arbitrary: ti vals)
  case Nil
  then show ?case by (simp add: bindFields_exhausted)
next
  case (Cons f fs1)
  show ?case
  proof (cases "length tokens \<le> ti")
    case True
    then show ?thesis by (simp add: bindFields_exhausted)
  next
    case False
    then obtain v where v: "\<And>rest. bindFields (f # rest) tokens ti vals
           = bindFields rest tokens (ti + fieldArity f) (vals(fieldNameOf f \<mapsto> v))"
      using bindFields_step [of ti tokens f vals] by auto
    have "length tokens \<le> (ti + fieldArity f) + sum_list (map fieldArity fs1)"
      using Cons.prems by simp
    then have "bindFields (fs1 @ fs2) tokens (ti + fieldArity f) (vals(fieldNameOf f \<mapsto> v))
        = bindFields fs1 tokens (ti + fieldArity f) (vals(fieldNameOf f \<mapsto> v))"
      by (rule Cons.IH)
    then show ?thesis
      using v [of "fs1 @ fs2"] v [of fs1] by simp
  qed
qed


text \<open>C8. When the tokens of the value line run out before all fields of the schema are
  consumed, binding stops: if the fields \<open>bound\<close> already consume at least as many tokens as
  the value line has, the result is what binding \<open>bound\<close> alone gives, its keys are names of
  \<open>bound\<close>, and every later field whose name is not among them is absent from the map.\<close>

theorem parseValues_unbound_absent:
  assumes "parseValues (Some headerLine) (Some valueLine) = Inr vals"
    and "matchBraces headerLine = Some g"
    and "splitWs (trim g) = bound @ unbound"
    and "length (tokenize valueLine) \<le> sum_list (map fieldArity bound)"
  shows "vals = bindFields bound (tokenize valueLine) 0 Map.empty
    \<and> dom vals \<subseteq> fieldNameOf ` set bound
    \<and> (\<forall>f \<in> set unbound. fieldNameOf f \<notin> fieldNameOf ` set bound \<longrightarrow> vals (fieldNameOf f) = None)"
proof -
  have "vals = bindFields (bound @ unbound) (tokenize valueLine) 0 Map.empty"
    using assms(1,2,3) by (simp add: parseValues_def)
  then have eq: "vals = bindFields bound (tokenize valueLine) 0 Map.empty"
    using assms(4) by (simp add: bindFields_stop)
  then have sub: "dom vals \<subseteq> fieldNameOf ` set bound"
    using bindFields_dom [of bound "tokenize valueLine" 0 Map.empty] by simp
  then have "\<forall>f \<in> set unbound. fieldNameOf f \<notin> fieldNameOf ` set bound \<longrightarrow> vals (fieldNameOf f) = None"
    by (meson domIff subsetD)
  with eq sub show ?thesis by blast
qed

lemma tokenize_example: "tokenize ''x 1 2'' = [''x'', ''1'', ''2'']"
  by (simp add: tokenize_def trim_def isSpace_def pushToken_def dquote_def)

lemma splitWs_example:
  "splitWs (trim '' A:s B:fff C:d D:d '') = [''A:s'', ''B:fff''] @ [''C:d'', ''D:d'']"
  by (simp add: trim_def isSpace_def)

theorem parseValues_unbound_absent_witness:
  "\<exists>vals. parseValues (Some ''{ A:s B:fff C:d D:d }'') (Some ''x 1 2'') = Inr vals
     \<and> vals ''A'' = Some ''x'' \<and> vals ''B'' = Some ''1 2 0''
     \<and> vals ''C'' = None \<and> vals ''D'' = None"
proof -
  let ?vals = "bindFields ([''A:s'', ''B:fff''] @ [''C:d'', ''D:d'']) (tokenize ''x 1 2'') 0 Map.empty"
  have m: "matchBraces ''{ A:s B:fff C:d D:d }'' = Some '' A:s B:fff C:d D:d ''"
    by simp
  have p: "parseValues (Some ''{ A:s B:fff C:d D:d }'') (Some ''x 1 2'') = Inr ?vals"
    unfolding parseValues_def by (simp only: m splitWs_example option.case)
  have ar: "length (tokenize ''x 1 2'') \<le> sum_list (map fieldArity [''A:s'', ''B:fff''])"
    by (simp add: tokenize_example fieldArity_def fieldTypeOf_def)
  note t = parseValues_unbound_absent [OF p m splitWs_example ar]
  from t have absent: "\<forall>f \<in> set [''C:d'', ''D:d''].
      fieldNameOf f \<notin> fieldNameOf ` set [''A:s'', ''B:fff''] \<longrightarrow> ?vals (fieldNameOf f) = None"
    by (elim conjE)
  have names: "fieldNameOf ''C:d'' = ''C''" "fieldNameOf ''D:d'' = ''D''"
    "fieldNameOf ''A:s'' = ''A''" "fieldNameOf ''B:fff'' = ''B''"
    by (simp_all add: fieldNameOf_def)
  have "?vals ''C'' = None"
    using absent [rule_format, of "''C:d''"] by (simp add: names)
  moreover have "?vals ''D'' = None"
    using absent [rule_format, of "''D:d''"] by (simp add: names)
  moreover have "?vals ''A'' = Some ''x''" "?vals ''B'' = Some ''1 2 0''"
    by (simp_all add: tokenize_example names fieldTypeOf_def tokenOr0_def)
  ultimately show ?thesis using p by blast
qed


section \<open>Unknown action type codes\<close>

lemma decodeCamera_defaults:
  assumes "\<forall>key \<in> set cameraKeys. vals (prefix @ key) = None"
  shows "decodeCamera prefix vals = defaultCameraFields"
  using assms
  by (simp add: decodeCamera_def defaultCameraFields_def cameraKeys_def orElse_def parse_defaults)

lemma ACTION_TYPE_REVERSE_None:
  "ACTION_TYPE_REVERSE n = None \<longleftrightarrow> n \<notin> {Fin 2, Fin 4, Fin 5, Fin 6, Fin 8, Fin 9, Fin 10}"
  by (simp add: ACTION_TYPE_REVERSE_def)


text \<open>An Action section with the unknown code 99 and a field \<open>Action0\Target\<close> decodes to a
  camera action whose \<open>target\<close> is the text of that field, not the default.\<close>

theorem unknown_code_reads_camera_fields:
  "map actions (parseCinemaFile sampleUuids unknownTypeText) =
     [[CameraAction
         \<lparr> ac_id = ''uuid-0'', ac_index = Fin 0, ac_name = ''Action 0'', ac_shot = Fin 0,
           ac_offset = Fin 0, ac_duration = Fin 1, ac_syncPoint = Fin 0, ac_finishShot = Fin 1,
           ac_defaultLength = Fin 1 \<rparr>
         (defaultCameraFields \<lparr> cam_target := ''0.50'' \<rparr>)]]
   \<and> defaultCameraFields \<lparr> cam_target := ''0.50'' \<rparr> \<noteq> defaultCameraFields"
  by (simp add: unknownTypeText_def loop_eval str_eval emptyCinema_def decodeCinemaHeader_def
      decodeAction_def decodeCamera_def defaultCameraFields_def parse_defaults sampleUuids_def
      showNat_eval ACTION_TYPE_REVERSE_def num_eval)



text \<open>C5 (as amended). For every Action section whose type code is outside
  \<open>{2, 4, 5, 6, 8, 9, 10}\<close>, the decoder builds a camera action (type \<open>camera\<close>, code 4) and
  never fails on the code; its camera fields are decoded from the section like those of a
  camera section, so each takes its default value when the section binds no field of that
  name, and all of them do when the section binds none of the camera field names.\<close>

theorem decodeAction_unknown_code:
  assumes "parseIntVal (orElse (vals (''Action'' @ numToString actionIndex @ [bslash] @ ''Type'')) ''4'')
             \<notin> {Fin 2, Fin 4, Fin 5, Fin 6, Fin 8, Fin 9, Fin 10}"
  shows "\<exists>b. decodeAction uuid actionIndex vals
            = CameraAction b (decodeCamera (''Action'' @ numToString actionIndex @ [bslash]) vals)
          \<and> ac_type (decodeAction uuid actionIndex vals) = camera
          \<and> ac_typeNum (decodeAction uuid actionIndex vals) = Fin 4
          \<and> ((\<forall>key \<in> set cameraKeys.
                 vals (''Action'' @ numToString actionIndex @ [bslash] @ key) = None)
               \<longrightarrow> decodeAction uuid actionIndex vals = CameraAction b defaultCameraFields)"
proof -
  have "ACTION_TYPE_REVERSE
      (parseIntVal (orElse (vals (''Action'' @ numToString actionIndex @ [bslash] @ ''Type'')) ''4''))
      = None"
    using assms by (simp add: ACTION_TYPE_REVERSE_None)
  then obtain b where b: "decodeAction uuid actionIndex vals
      = CameraAction b (decodeCamera (''Action'' @ numToString actionIndex @ [bslash]) vals)"
    by (simp add: decodeAction_def Let_def)
  have "decodeCamera (''Action'' @ numToString actionIndex @ [bslash]) vals = defaultCameraFields"
    if "\<forall>key \<in> set cameraKeys. vals (''Action'' @ numToString actionIndex @ [bslash] @ key) = None"
    using that decodeCamera_defaults [of vals "''Action'' @ numToString actionIndex @ [bslash]"]
    by simp
  then show ?thesis using b by auto
qed


theorem decodeAction_unknown_code_witness:
  "decodeAction ''u'' (Fin 0) [''Action0'' @ [bslash] @ ''Type'' \<mapsto> ''99''] =
     CameraAction
       \<lparr> ac_id = ''u'', ac_index = Fin 0, ac_name = ''Action 0'', ac_shot = Fin 0,
         ac_offset = Fin 0, ac_duration = Fin 1, ac_syncPoint = Fin 0, ac_finishShot = Fin 1,
         ac_defaultLength = Fin 1 \<rparr>
       defaultCameraFields"
proof -
  let ?vals = "[''Action0'' @ [bslash] @ ''Type'' \<mapsto> ''99'']"
  have code: "parseIntVal (orElse (?vals (''Action'' @ numToString (Fin 0) @ [bslash] @ ''Type'')) ''4'')
      \<notin> {Fin 2, Fin 4, Fin 5, Fin 6, Fin 8, Fin 9, Fin 10}"
    by (simp add: orElse_def num_eval bslash_def)
  have none: "\<forall>key \<in> set cameraKeys. ?vals (''Action'' @ numToString (Fin 0) @ [bslash] @ key) = None"
    by (simp add: cameraKeys_def bslash_def)
  from decodeAction_unknown_code [of ?vals "Fin 0" "''u''"] code none
  obtain b where b: "decodeAction ''u'' (Fin 0) ?vals = CameraAction b defaultCameraFields"
    by blast
  have "ac_base (decodeAction ''u'' (Fin 0) ?vals) =
      \<lparr> ac_id = ''u'', ac_index = Fin 0, ac_name = ''Action 0'', ac_shot = Fin 0,
        ac_offset = Fin 0, ac_duration = Fin 1, ac_syncPoint = Fin 0, ac_finishShot = Fin 1,
        ac_defaultLength = Fin 1 \<rparr>"
    by (simp add: decodeAction_def ACTION_TYPE_REVERSE_def orElse_def parseString_def
        parse_defaults num_eval bslash_def dquote_def Let_def)
  with b show ?thesis by simp
qed


section \<open>Keyframes of decoded camera paths\<close>

lemma decodeCinemaHeader_collections [simp]:
  "cameraPaths (decodeCinemaHeader v c) = cameraPaths c"
  "shots (decodeCinemaHeader v c) = shots c"
  "syncPoints (decodeCinemaHeader v c) = syncPoints c"
  "actions (decodeCinemaHeader v c) = actions c"
  "participants (decodeCinemaHeader v c) = participants c"
  by (simp_all add: decodeCinemaHeader_def)

lemma loopBody_hasKeyframes:
  assumes "hasKeyframes c" and "loopBody uuids lines i c k = Inr t"
  shows "case t of Return c' e k' \<Rightarrow> hasKeyframes c' | Continue i' c' k' \<Rightarrow> hasKeyframes c'"
  using assms unfolding loopBody_def Let_def hasKeyframes_def
  by (auto split: if_splits sum.splits option.splits prod.splits)

lemma parseLoop_hasKeyframes:
  "hasKeyframes cinema \<Longrightarrow> parseLoop uuids lines i cinema k = Inr (c, endIndex, k')
     \<Longrightarrow> hasKeyframes c"
proof (induction uuids lines i cinema k rule: parseLoop.induct)
  case (1 uuids lines i cinema k)
  show ?case
  proof (cases "i < length lines")
    case False
    then show ?thesis
      using "1.prems" by (subst (asm) parseLoop.simps) simp
  next
    case True
    show ?thesis
    proof (cases "loopBody uuids lines i cinema k")
      case (Inl e)
      then show ?thesis
        using True "1.prems" by (subst (asm) parseLoop.simps) simp
    next
      case (Inr t)
      note inv = loopBody_hasKeyframes [OF "1.prems"(1) Inr]
      show ?thesis
      proof (cases t)
        case (Return c0 e0 k0)
        then show ?thesis
          using True Inr inv "1.prems"(2) by (subst (asm) parseLoop.simps) simp
      next
        case (Continue i0 c0 k0)
        then have "hasKeyframes c0" using inv by simp
        moreover have "parseLoop uuids lines i0 c0 k0 = Inr (c, endIndex, k')"
          using True Inr Continue "1.prems"(2) by (subst (asm) parseLoop.simps) simp
        ultimately show ?thesis
          using "1.IH" [OF True Inr Continue] by blast
      qed
    qed
  qed
qed

lemma hasKeyframes_emptyCinema: "hasKeyframes emptyCinema"
  by (simp add: hasKeyframes_def emptyCinema_def)

lemma fileLoop_hasKeyframes:
  "\<forall>c \<in> set cinemas. hasKeyframes c \<Longrightarrow> fileLoop uuids lines i cinemas k = Inr result
     \<Longrightarrow> \<forall>c \<in> set result. hasKeyframes c"
proof (induction uuids lines i cinemas k rule: fileLoop.induct)
  case (1 uuids lines i cinemas k)
  show ?case
  proof (cases "i < length lines")
    case False
    then show ?thesis
      using "1.prems" by (subst (asm) fileLoop.simps) simp
  next
    case True
    define line where "line = trim (lines ! i)"
    consider (skip) "startsWith line ''//'' \<or> line = []"
      | (cin) "\<not> (startsWith line ''//'' \<or> line = [])" "startsWith line ''[ Cinema :''"
      | (other) "\<not> (startsWith line ''//'' \<or> line = [])" "\<not> startsWith line ''[ Cinema :''"
      by blast
    then show ?thesis
    proof cases
      case skip
      then have "fileLoop uuids lines (i + 1) cinemas k = Inr result"
        using True "1.prems"(2) unfolding line_def by (subst (asm) fileLoop.simps) simp
      then show ?thesis
        using "1.IH"(1) [OF True line_def skip "1.prems"(1)] by blast
    next
      case other
      then have "fileLoop uuids lines (i + 1) cinemas k = Inr result"
        using True "1.prems"(2) unfolding line_def by (subst (asm) fileLoop.simps) simp
      then show ?thesis
        using "1.IH"(3) [OF True line_def other "1.prems"(1)] by blast
    next
      case cin
      show ?thesis
      proof (cases "parseSingleCinema uuids lines i k")
        case (Inl e)
        then show ?thesis
          using True cin "1.prems"(2) unfolding line_def by (subst (asm) fileLoop.simps) simp
      next
        case (Inr r)
        obtain c e k' where r: "r = (c, e, k')" by (cases r) auto
        have "hasKeyframes c"
          using Inr r parseLoop_hasKeyframes [OF hasKeyframes_emptyCinema]
          unfolding parseSingleCinema_def by blast
        then have acc: "\<forall>c \<in> set (cinemas @ [c]). hasKeyframes c"
          using "1.prems"(1) by simp
        have "fileLoop uuids lines e (cinemas @ [c]) k' = Inr result"
          using True cin Inr r "1.prems"(2) unfolding line_def
          by (subst (asm) fileLoop.simps) simp
        then show ?thesis
          using "1.IH"(2) [OF True line_def cin Inr r [symmetric] refl acc] by blast
      qed
    qed
  qed
qed


lemma startsWith_Cons: "startsWith s (p # ps) \<longleftrightarrow> (\<exists>cs. s = p # cs \<and> startsWith cs ps)"
  by (cases s) auto

lemma cameraPath_line_branch:
  assumes "startsWith line ''[ CameraPath :''"
  shows "\<not> startsWith line ''[ Cinema :''" "\<not> startsWith line ''[ Participants :''"
proof -
  obtain r where "line = ''[ Ca'' @ r"
    using assms by (auto simp: startsWith_Cons)
  then show "\<not> startsWith line ''[ Cinema :''" "\<not> startsWith line ''[ Participants :''"
    by simp_all
qed

lemma loopBody_cameraPath_default:
  assumes "reachesCameraPath (trim (lines ! i))"
    and "loopBody uuids lines i cinema k = Inr (Continue i' cinema' k')"
    and "sectionKeyframes lines i = []"
  shows "\<exists>cp. cameraPaths cinema' = cameraPaths cinema @ [cp]
           \<and> cp_keyframes cp = [createDefaultKeyframe]"
proof -
  have br: "startsWith (trim (lines ! i)) ''[ CameraPath :''"
    "matchIndexed ''Shot'' (trim (lines ! i)) = None"
    "matchIndexed ''SyncPoint'' (trim (lines ! i)) = None"
    "matchIndexed ''Action'' (trim (lines ! i)) = None"
    using assms(1) by (simp_all add: reachesCameraPath_def)
  note nb = cameraPath_line_branch [OF br(1)]
  show ?thesis
  proof (cases "i + 3 < length lines \<and> startsWith (trim (lines ! (i + 3))) ''[ Keyframes :''")
    case True
    then have "snd (keyframesLoop lines (i + 5) []) = []"
      using assms(3) by (simp add: sectionKeyframes_def)
    then show ?thesis
      using assms(2) br nb True unfolding loopBody_def Let_def
      by (auto split: sum.splits prod.splits)
  next
    case False
    then show ?thesis
      using assms(2) br nb unfolding loopBody_def Let_def
      by (auto split: sum.splits prod.splits)
  qed
qed


text \<open>C7. Every camera path of every record that \<open>parseCinemaFile\<close> returns has at least one
  keyframe; and a CameraPath section that is decoded with no keyframe (no Keyframes section
  after it, or one without keyframe lines) gets exactly one keyframe, all seven of whose
  components are 0.\<close>

theorem decoded_paths_have_keyframes:
  "(\<forall>c \<in> set (parseCinemaFile uuids content). \<forall>cp \<in> set (cameraPaths c). cp_keyframes cp \<noteq> [])
   \<and> (reachesCameraPath (trim (lines ! i))
        \<and> loopBody uuids lines i cinema k = Inr (Continue i' cinema' k')
        \<and> sectionKeyframes lines i = []
      \<longrightarrow> (\<exists>cp. cameraPaths cinema' = cameraPaths cinema @ [cp]
                \<and> cp_keyframes cp =
                    [\<lparr> posX = Fin 0, posY = Fin 0, posZ = Fin 0, oriX = Fin 0, oriY = Fin 0,
                     oriZ = Fin 0, oriW = Fin 0 \<rparr>]))"
proof
  show "\<forall>c \<in> set (parseCinemaFile uuids content). \<forall>cp \<in> set (cameraPaths c). cp_keyframes cp \<noteq> []"
  proof (cases "fileLoop uuids (splitOn newline content) 0 [] 0")
    case (Inl e)
    then show ?thesis by (simp add: parseCinemaFile_def)
  next
    case (Inr result)
    then have "\<forall>c \<in> set result. hasKeyframes c"
      using fileLoop_hasKeyframes [of "[]"] by simp
    then show ?thesis using Inr by (simp add: parseCinemaFile_def hasKeyframes_def)
  qed
  show "reachesCameraPath (trim (lines ! i))
        \<and> loopBody uuids lines i cinema k = Inr (Continue i' cinema' k')
        \<and> sectionKeyframes lines i = []
      \<longrightarrow> (\<exists>cp. cameraPaths cinema' = cameraPaths cinema @ [cp]
                \<and> cp_keyframes cp =
                    [\<lparr> posX = Fin 0, posY = Fin 0, posZ = Fin 0, oriX = Fin 0, oriY = Fin 0,
                     oriZ = Fin 0, oriW = Fin 0 \<rparr>])"
    using loopBody_cameraPath_default [of lines i uuids cinema k i' cinema' k']
    by (simp add: createDefaultKeyframe_def)
qed

lemma noKeyframesText_parse:
  "map (\<lambda>c. map cp_keyframes (cameraPaths c)) (parseCinemaFile sampleUuids noKeyframesText)
     = [[[\<lparr> posX = Fin 0, posY = Fin 0, posZ = Fin 0, oriX = Fin 0, oriY = Fin 0,
                     oriZ = Fin 0, oriW = Fin 0 \<rparr>]]]"
  by (simp add: noKeyframesText_def loop_eval str_eval emptyCinema_def decodeCinemaHeader_def
      decodeCameraPath_def parse_defaults sampleUuids_def showNat_eval num_eval
      createDefaultKeyframe_def)

theorem decoded_paths_have_keyframes_witness:
  "map (\<lambda>c. map cp_keyframes (cameraPaths c)) (parseCinemaFile sampleUuids noKeyframesText)
     = [[[\<lparr> posX = Fin 0, posY = Fin 0, posZ = Fin 0, oriX = Fin 0, oriY = Fin 0,
                     oriZ = Fin 0, oriW = Fin 0 \<rparr>]]]
   \<and> cp_keyframes (hd (cameraPaths (hd (parseCinemaFile sampleUuids noKeyframesText)))) \<noteq> []"
proof -
  let ?r = "parseCinemaFile sampleUuids noKeyframesText"
  have len: "length ?r = 1" "length (cameraPaths (hd ?r)) = 1"
    using noKeyframesText_parse
    by (cases ?r; cases "tl ?r"; cases "cameraPaths (hd ?r)"; cases "tl (cameraPaths (hd ?r))"; simp)+
  then have "hd ?r \<in> set ?r" "hd (cameraPaths (hd ?r)) \<in> set (cameraPaths (hd ?r))"
    by (cases ?r; simp; cases "cameraPaths (hd ?r)"; simp)+
  then have "cp_keyframes (hd (cameraPaths (hd ?r))) \<noteq> []"
    using decoded_paths_have_keyframes [of sampleUuids noKeyframesText] by blast
  then show ?thesis using noKeyframesText_parse by simp
qed

section \<open>Totality of the decoder\<close>

lemma orZero_not_NaN: "orZero n \<noteq> NaN"
  by (cases n) simp_all

lemma nthOrZero_not_NaN: "nthOrZero parts j \<noteq> NaN"
  by (simp add: nthOrZero_def orZero_not_NaN)

lemma orZero_number: "orZero (parseFloat t) = numberOrZero (Some t)"
  by (cases "parseFloat t") simp_all

lemma orZero_integer: "orZero (mathFloor (parseFloat t)) = integerOrZero (Some t)"
  by (cases "parseFloat t") simp_all

lemma orZero_idem: "orZero (orZero n) = orZero n"
  by (cases n) simp_all

lemma numberOrZero_not_NaN: "numberOrZero t \<noteq> NaN"
  by (cases t) simp_all

lemma integerOrZero_not_NaN: "integerOrZero t \<noteq> NaN"
proof (cases t)
  case None
  then show ?thesis by simp
next
  case (Some s)
  then show ?thesis by (cases "parseFloat s") simp_all
qed

lemma orZero_id: "n \<noteq> NaN \<Longrightarrow> orZero n = n"
  by (cases n) simp_all

lemma nthOrZero_number:
  "nthOrZero (map (\<lambda>v. orZero (parseFloat v)) toks) j = numberOrZero (nthOpt toks j)"
  by (simp add: nthOrZero_def nthOpt_def orZero_number orZero_id numberOrZero_not_NaN
      del: numberOrZero.simps(2))

lemma nthOrZero_integer:
  "nthOrZero (map (\<lambda>v. orZero (mathFloor (parseFloat v))) toks) j
     = integerOrZero (nthOpt toks j)"
  by (simp add: nthOrZero_def nthOpt_def orZero_integer orZero_id integerOrZero_not_NaN
      del: integerOrZero.simps(2))

lemma nthOrZero_parseIntVal:
  "nthOrZero (map parseIntVal toks) j = integerOrZero (nthOpt toks j)"
  using nthOrZero_integer [of toks j] by (simp add: parseIntVal_def [abs_def])

text \<open>The decoder throws only where it reads the schema line or the value line of a section
  past the end of the input.\<close>

lemma parseValues_throw:
  "parseValues (nthOpt lines (i + 1)) (nthOpt lines (i + 2)) = Inl e \<Longrightarrow> length lines \<le> i + 2"
  by (auto simp: parseValues_def nthOpt_def split: option.splits if_splits)

lemma loopBody_throw:
  assumes "loopBody uuids lines i cinema k = Inl e"
  shows "length lines \<le> i + 2 \<and> readsValues (trim (lines ! i))"
proof -
  have "parseValues (nthOpt lines (i + 1)) (nthOpt lines (i + 2)) = Inl e
      \<and> readsValues (trim (lines ! i))"
    using assms unfolding loopBody_def Let_def readsValues_def
    by (auto split: if_splits sum.splits option.splits prod.splits)
  then show ?thesis using parseValues_throw by blast
qed

lemma parseLoop_throw:
  "parseLoop uuids lines i cinema k = Inl e \<Longrightarrow>
     \<exists>j < length lines. length lines \<le> j + 2 \<and> readsValues (trim (lines ! j))"
proof (induction uuids lines i cinema k rule: parseLoop.induct)
  case (1 uuids lines i cinema k)
  show ?case
  proof (cases "i < length lines")
    case False
    then show ?thesis using "1.prems" by (subst (asm) parseLoop.simps) simp
  next
    case True
    show ?thesis
    proof (cases "loopBody uuids lines i cinema k")
      case (Inl e')
      then show ?thesis using True loopBody_throw by blast
    next
      case (Inr t)
      show ?thesis
      proof (cases t)
        case (Return c0 e0 k0)
        then show ?thesis
          using True Inr "1.prems" by (subst (asm) parseLoop.simps) simp
      next
        case (Continue i0 c0 k0)
        then have "parseLoop uuids lines i0 c0 k0 = Inl e"
          using True Inr "1.prems" by (subst (asm) parseLoop.simps) simp
        then show ?thesis using "1.IH" [OF True Inr Continue] by simp
      qed
    qed
  qed
qed

lemma fileLoop_throw:
  "fileLoop uuids lines i cinemas k = Inl e \<Longrightarrow>
     \<exists>j < length lines. length lines \<le> j + 2 \<and> readsValues (trim (lines ! j))"
proof (induction uuids lines i cinemas k rule: fileLoop.induct)
  case (1 uuids lines i cinemas k)
  let ?line = "trim (lines ! i)"
  have lt: "i < length lines"
    using "1.prems" by (subst (asm) fileLoop.simps) (simp split: if_splits)
  show ?case
  proof (cases "startsWith ?line ''//'' \<or> ?line = []")
    case True
    then have "fileLoop uuids lines (i + 1) cinemas k = Inl e"
      using lt "1.prems" by (subst (asm) fileLoop.simps) (simp add: Let_def)
    then show ?thesis using "1.IH"(1) [OF lt refl True] by simp
  next
    case False
    show ?thesis
    proof (cases "startsWith ?line ''[ Cinema :''")
      case c: True
      show ?thesis
      proof (cases "parseSingleCinema uuids lines i k")
        case (Inl e')
        then show ?thesis unfolding parseSingleCinema_def by (rule parseLoop_throw)
      next
        case (Inr res)
        obtain cinema rest where res: "(cinema, rest) = res" by (cases res) auto
        obtain endIndex k' where rest: "(endIndex, k') = rest" by (cases rest) auto
        have "fileLoop uuids lines endIndex (cinemas @ [cinema]) k' = Inl e"
          using lt False c Inr res [symmetric] rest [symmetric] "1.prems"
          by (subst (asm) fileLoop.simps) (simp add: Let_def)
        then show ?thesis
          using "1.IH"(2) [OF lt refl False c Inr res rest] by simp
      qed
    next
      case n: False
      then have "fileLoop uuids lines (i + 1) cinemas k = Inl e"
        using lt False "1.prems" by (subst (asm) fileLoop.simps) (simp add: Let_def)
      then show ?thesis using "1.IH"(3) [OF lt refl False n] by simp
    qed
  qed
qed


text \<open>C10. \<open>parseCinemaFile\<close> returns a list for every input: its loops terminate (the
  termination proofs of \<open>participantsLoop\<close>, \<open>keyframesLoop\<close>, \<open>parseLoop\<close> and \<open>fileLoop\<close>
  above, every turn advancing the cursor); the decoder throws only where a section opens
  within the last two lines of the input, so that its schema line or value line is missing,
  and that error is caught and turned into the empty list; otherwise the records collected
  are returned. In a numeric position a token that does not parse as a number, or that is
  missing, decodes to 0, and any other token to its number (floored in an integer position):
  in a single field, in each component of a triple, quadruple or sextuple and in each
  component of a keyframe; so no numeric field is ever NaN.\<close>

theorem parseCinemaFile_total:
  "(fileLoop uuids (splitOn newline content) 0 [] 0 = Inl e \<longrightarrow>
      parseCinemaFile uuids content = []
      \<and> (\<exists>j < length (splitOn newline content).
            length (splitOn newline content) \<le> j + 2
            \<and> readsValues (trim (splitOn newline content ! j))))
   \<and> (fileLoop uuids (splitOn newline content) 0 [] 0 = Inr cinemas
        \<longrightarrow> parseCinemaFile uuids content = cinemas)
   \<and> (loopBody uuids lines i cinema k = Inr (Continue i' cinema' k') \<longrightarrow> i < i')
   \<and> (parseFloat tok = NaN \<longrightarrow> parseFloatVal tok = Fin 0 \<and> parseIntVal tok = Fin 0)
   \<and> parseFloatVal tok = numberOrZero (Some tok)
   \<and> parseIntVal tok = integerOrZero (Some tok)
   \<and> numberOrZero t \<noteq> NaN \<and> integerOrZero t \<noteq> NaN
   \<and> parseTriple val =
       (numberOrZero (componentToken val 0), numberOrZero (componentToken val 1),
        numberOrZero (componentToken val 2))
   \<and> parseQuad val =
       (integerOrZero (componentToken val 0), integerOrZero (componentToken val 1),
        integerOrZero (componentToken val 2), integerOrZero (componentToken val 3))
   \<and> parseSix val =
       (numberOrZero (componentToken val 0), numberOrZero (componentToken val 1),
        numberOrZero (componentToken val 2), numberOrZero (componentToken val 3),
        numberOrZero (componentToken val 4), numberOrZero (componentToken val 5))
   \<and> decodeKeyframe val =
       \<lparr> posX = integerOrZero (nthOpt (splitWs val) 0),
         posY = integerOrZero (nthOpt (splitWs val) 1),
         posZ = integerOrZero (nthOpt (splitWs val) 2),
         oriX = integerOrZero (nthOpt (splitWs val) 3),
         oriY = integerOrZero (nthOpt (splitWs val) 4),
         oriZ = integerOrZero (nthOpt (splitWs val) 5),
         oriW = integerOrZero (nthOpt (splitWs val) 6) \<rparr>"
proof -
  have throw: "fileLoop uuids (splitOn newline content) 0 [] 0 = Inl e \<longrightarrow>
      parseCinemaFile uuids content = []
      \<and> (\<exists>j < length (splitOn newline content).
            length (splitOn newline content) \<le> j + 2
            \<and> readsValues (trim (splitOn newline content ! j)))"
    using fileLoop_throw [of uuids "splitOn newline content" 0 "[]" 0 e]
    by (simp add: parseCinemaFile_def)
  have ret: "fileLoop uuids (splitOn newline content) 0 [] 0 = Inr cinemas
        \<longrightarrow> parseCinemaFile uuids content = cinemas"
    by (simp add: parseCinemaFile_def)
  have adv: "loopBody uuids lines i cinema k = Inr (Continue i' cinema' k') \<longrightarrow> i < i'"
    using loopBody_progress by blast
  have single: "parseFloatVal tok = numberOrZero (Some tok)"
    "parseIntVal tok = integerOrZero (Some tok)"
    by (simp_all only: parseFloatVal_def parseIntVal_def orZero_number orZero_integer)
  have nan: "parseFloat tok = NaN \<longrightarrow> parseFloatVal tok = Fin 0 \<and> parseIntVal tok = Fin 0"
    by (simp add: single)
  have tuples: "parseTriple val =
       (numberOrZero (componentToken val 0), numberOrZero (componentToken val 1),
        numberOrZero (componentToken val 2))"
    "parseQuad val =
       (integerOrZero (componentToken val 0), integerOrZero (componentToken val 1),
        integerOrZero (componentToken val 2), integerOrZero (componentToken val 3))"
    "parseSix val =
       (numberOrZero (componentToken val 0), numberOrZero (componentToken val 1),
        numberOrZero (componentToken val 2), numberOrZero (componentToken val 3),
        numberOrZero (componentToken val 4), numberOrZero (componentToken val 5))"
    by (simp_all only: parseTriple_def parseQuad_def parseSix_def Let_def componentToken_def
        nthOrZero_number nthOrZero_integer)
  have kf: "decodeKeyframe val =
       \<lparr> posX = integerOrZero (nthOpt (splitWs val) 0),
         posY = integerOrZero (nthOpt (splitWs val) 1),
         posZ = integerOrZero (nthOpt (splitWs val) 2),
         oriX = integerOrZero (nthOpt (splitWs val) 3),
         oriY = integerOrZero (nthOpt (splitWs val) 4),
         oriZ = integerOrZero (nthOpt (splitWs val) 5),
         oriW = integerOrZero (nthOpt (splitWs val) 6) \<rparr>"
    by (simp only: decodeKeyframe_def Let_def nthOrZero_parseIntVal)
  show ?thesis
    using throw ret adv nan single numberOrZero_not_NaN integerOrZero_not_NaN tuples kf
    by (intro conjI)
qed

theorem parseCinemaFile_total_witness:
  "fileLoop sampleUuids (splitOn newline headerOnlyText) 0 [] 0 = Inl TypeError
   \<and> parseCinemaFile sampleUuids headerOnlyText = []
   \<and> parseFloat ''abc'' = NaN \<and> parseFloatVal ''abc'' = Fin 0 \<and> parseIntVal ''abc'' = Fin 0
   \<and> parseTriple ''1 x 2'' = (Fin 1, Fin 0, Fin 2)
   \<and> parseQuad ''7 8 9 x'' = (Fin 7, Fin 8, Fin 9, Fin 0)
   \<and> parseQuad ''7 8'' = (Fin 7, Fin 8, Fin 0, Fin 0)"
proof -
  have a: "fileLoop sampleUuids (splitOn newline headerOnlyText) 0 [] 0 = Inl TypeError"
    by (simp add: headerOnlyText_def loop_eval str_eval emptyCinema_def)
  have b: "parseFloat ''abc'' = NaN" "parseFloat ''x'' = NaN"
    "parseFloat ''1'' = Fin 1" "parseFloat ''2'' = Fin 2" "parseFloat ''7'' = Fin 7"
    "parseFloat ''8'' = Fin 8" "parseFloat ''9'' = Fin 9"
    by (simp_all add: num_eval)
  have c: "splitOn CHR '' '' ''1 x 2'' = [''1'', ''x'', ''2'']"
    "splitOn CHR '' '' ''7 8 9 x'' = [''7'', ''8'', ''9'', ''x'']"
    "splitOn CHR '' '' ''7 8'' = [''7'', ''8'']"
    by simp_all
  have t: "parseCinemaFile sampleUuids headerOnlyText = []
      \<and> parseFloatVal ''abc'' = Fin 0 \<and> parseIntVal ''abc'' = Fin 0
      \<and> parseTriple ''1 x 2'' = (Fin 1, Fin 0, Fin 2)
      \<and> parseQuad ''7 8 9 x'' = (Fin 7, Fin 8, Fin 9, Fin 0)"
    using parseCinemaFile_total [where uuids = sampleUuids and content = headerOnlyText
        and e = TypeError and tok = "''abc''" and val = "''1 x 2''"]
      parseCinemaFile_total [where val = "''7 8 9 x''"] a b
    by (simp add: componentToken_def nthOpt_def c floor_eval)
  have "parseQuad ''7 8'' = (Fin 7, Fin 8, Fin 0, Fin 0)"
    using parseCinemaFile_total [where val = "''7 8''"] b
    by (simp add: componentToken_def nthOpt_def c floor_eval)
  then show ?thesis using a b t by simp
qed

section \<open>Identifiers and determinism of the decoder\<close>

lemma eraseIds_eq_iff:
  "eraseIds c1 = eraseIds c2 \<longleftrightarrow>
     guid c1 = guid c2 \<and> objName c1 = objName c2 \<and> duration c1 = duration c2
     \<and> properties c1 = properties c2
     \<and> map (\<lambda>s. s\<lparr>sh_id := []\<rparr>) (shots c1) = map (\<lambda>s. s\<lparr>sh_id := []\<rparr>) (shots c2)
     \<and> map (\<lambda>s. s\<lparr>sp_id := []\<rparr>) (syncPoints c1) = map (\<lambda>s. s\<lparr>sp_id := []\<rparr>) (syncPoints c2)
     \<and> map eraseActionId (actions c1) = map eraseActionId (actions c2)
     \<and> participants c1 = participants c2
     \<and> map (\<lambda>p. p\<lparr>cp_id := []\<rparr>) (cameraPaths c1) = map (\<lambda>p. p\<lparr>cp_id := []\<rparr>) (cameraPaths c2)"
  by (cases c1; cases c2) (simp add: eraseIds_def)

lemma eraseActionId_decodeAction:
  "eraseActionId (decodeAction u1 idx v) = eraseActionId (decodeAction u2 idx v)"
  by (simp add: decodeAction_def eraseActionId_def Let_def split: actionType.splits option.splits)

lemma eraseIds_cong:
  assumes "eraseIds c1 = eraseIds c2"
  shows "eraseIds (decodeCinemaHeader v c1) = eraseIds (decodeCinemaHeader v c2)"
    "eraseIds (c1\<lparr>shots := shots c1 @ [decodeShot u1 idx v]\<rparr>)
       = eraseIds (c2\<lparr>shots := shots c2 @ [decodeShot u2 idx v]\<rparr>)"
    "eraseIds (c1\<lparr>syncPoints := syncPoints c1 @ [decodeSyncPoint u1 idx v]\<rparr>)
       = eraseIds (c2\<lparr>syncPoints := syncPoints c2 @ [decodeSyncPoint u2 idx v]\<rparr>)"
    "eraseIds (c1\<lparr>actions := actions c1 @ [decodeAction u1 idx v]\<rparr>)
       = eraseIds (c2\<lparr>actions := actions c2 @ [decodeAction u2 idx v]\<rparr>)"
    "eraseIds (c1\<lparr>participants := ps\<rparr>) = eraseIds (c2\<lparr>participants := ps\<rparr>)"
    "eraseIds (c1\<lparr>cameraPaths := cameraPaths c1 @ [(decodeCameraPath u1 v)\<lparr>cp_keyframes := kfs\<rparr>]\<rparr>)
       = eraseIds (c2\<lparr>cameraPaths := cameraPaths c2 @ [(decodeCameraPath u2 v)\<lparr>cp_keyframes := kfs\<rparr>]\<rparr>)"
  using assms
  by (simp_all add: eraseIds_eq_iff decodeCinemaHeader_def decodeShot_def decodeSyncPoint_def
      decodeCameraPath_def eraseActionId_decodeAction Let_def)


lemma loopBody_erase:
  assumes "eraseIds c1 = eraseIds c2"
  shows "sameTurn (loopBody u1 lines i c1 k1) (loopBody u2 lines i c2 k2)"
proof -
  have g: "guid c1 = guid c2" and p: "participants c1 = participants c2"
    using assms by (simp_all add: eraseIds_eq_iff)
  note cong = eraseIds_cong [OF assms]
  define line where "line = trim (lines ! i)"
  consider (ret) "startsWith line ''[ Cinema :''" "guid c1 \<noteq> []"
    | (hdr) "startsWith line ''[ Cinema :''" "guid c1 = []"
    | (shot) ds where "\<not> startsWith line ''[ Cinema :''" "matchIndexed ''Shot'' line = Some ds"
    | (sync) ds where "\<not> startsWith line ''[ Cinema :''" "matchIndexed ''Shot'' line = None"
        "matchIndexed ''SyncPoint'' line = Some ds"
    | (act) ds where "\<not> startsWith line ''[ Cinema :''" "matchIndexed ''Shot'' line = None"
        "matchIndexed ''SyncPoint'' line = None" "matchIndexed ''Action'' line = Some ds"
    | (part) "plainLine line" "startsWith line ''[ Participants :''"
    | (cp) "plainLine line" "\<not> startsWith line ''[ Participants :''"
        "startsWith line ''[ CameraPath :''"
    | (other) "plainLine line" "\<not> startsWith line ''[ Participants :''"
        "\<not> startsWith line ''[ CameraPath :''"
    unfolding plainLine_def by (cases "matchIndexed ''Shot'' line";
        cases "matchIndexed ''SyncPoint'' line"; cases "matchIndexed ''Action'' line") auto
  then show ?thesis
  proof cases
    case ret
    then show ?thesis
      using g assms unfolding line_def by (simp add: loopBody_return sameTurn_def)
  next
    case hdr
    then show ?thesis
      using g cong(1) unfolding line_def
      by (simp add: loopBody_header sameTurn_def split: sum.splits)
  next
    case shot
    then show ?thesis
      using cong(2) unfolding line_def
      by (simp add: loopBody_shot sameTurn_def split: sum.splits)
  next
    case sync
    then show ?thesis
      using cong(3) unfolding line_def
      by (simp add: loopBody_syncPoint sameTurn_def split: sum.splits)
  next
    case act
    then show ?thesis
      using cong(4) unfolding line_def
      by (simp add: loopBody_action sameTurn_def split: sum.splits)
  next
    case part
    then show ?thesis
      using cong(5) p unfolding line_def
      by (simp add: loopBody_participants sameTurn_def)
  next
    case cp
    then show ?thesis
      using cong(6) unfolding line_def
      by (simp add: loopBody_cameraPath sameTurn_def split: sum.splits)
  next
    case other
    then show ?thesis
      using assms unfolding line_def
      by (simp add: loopBody_other sameTurn_def)
  qed
qed


lemma parseLoop_erase:
  "eraseIds c1 = eraseIds c2 \<Longrightarrow>
     sameRecord (parseLoop u1 lines i c1 k1) (parseLoop u2 lines i c2 k2)"
proof (induction u1 lines i c1 k1 arbitrary: c2 k2 rule: parseLoop.induct)
  case (1 u1 lines i c1 k1)
  show ?case
  proof (cases "i < length lines")
    case False
    then show ?thesis
      using "1.prems"
      by (simp add: parseLoop.simps [of u1 lines i] parseLoop.simps [of u2 lines i] sameRecord_def)
  next
    case True
    note st = loopBody_erase [OF "1.prems", of u1 lines i k1 u2 k2]
    show ?thesis
    proof (cases "loopBody u1 lines i c1 k1")
      case (Inl e)
      then obtain e' where "loopBody u2 lines i c2 k2 = Inl e'"
        using st by (auto simp: sameTurn_def split: sum.splits turn.splits)
      then show ?thesis
        using True Inl
        by (simp add: parseLoop.simps [of u1 lines i] parseLoop.simps [of u2 lines i] sameRecord_def)
    next
      case (Inr t)
      show ?thesis
      proof (cases t)
        case (Return a e ka)
        then obtain b kb where "loopBody u2 lines i c2 k2 = Inr (Return b e kb)"
          "eraseIds a = eraseIds b"
          using st Inr by (auto simp: sameTurn_def split: sum.splits turn.splits)
        then show ?thesis
          using True Inr Return
          by (simp add: parseLoop.simps [of u1 lines i] parseLoop.simps [of u2 lines i]
              sameRecord_def)
      next
        case (Continue i' a ka)
        then obtain b kb where b: "loopBody u2 lines i c2 k2 = Inr (Continue i' b kb)"
          "eraseIds a = eraseIds b"
          using st Inr by (auto simp: sameTurn_def split: sum.splits turn.splits)
        have "sameRecord (parseLoop u1 lines i' a ka) (parseLoop u2 lines i' b kb)"
          using "1.IH" [OF True Inr Continue b(2)] .
        then show ?thesis
          using True Inr Continue b(1)
          by (simp add: parseLoop.simps [of u1 lines i] parseLoop.simps [of u2 lines i])
      qed
    qed
  qed
qed

lemma fileLoop_erase:
  "map eraseIds acc1 = map eraseIds acc2 \<Longrightarrow>
     sameRecords (fileLoop u1 lines i acc1 k1) (fileLoop u2 lines i acc2 k2)"
proof (induction u1 lines i acc1 k1 arbitrary: acc2 k2 rule: fileLoop.induct)
  case (1 u1 lines i acc1 k1)
  show ?case
  proof (cases "i < length lines")
    case False
    then show ?thesis
      using "1.prems"
      by (simp add: fileLoop.simps [of u1 lines i] fileLoop.simps [of u2 lines i] sameRecords_def)
  next
    case True
    define line where "line = trim (lines ! i)"
    consider (skip) "startsWith line ''//'' \<or> line = []"
      | (cin) "\<not> (startsWith line ''//'' \<or> line = [])" "startsWith line ''[ Cinema :''"
      | (other) "\<not> (startsWith line ''//'' \<or> line = [])" "\<not> startsWith line ''[ Cinema :''"
      by blast
    then show ?thesis
    proof cases
      case skip
      have "sameRecords (fileLoop u1 lines (i + 1) acc1 k1) (fileLoop u2 lines (i + 1) acc2 k2)"
        using "1.IH"(1) [OF True line_def skip "1.prems"] .
      then show ?thesis
        using True skip unfolding line_def
        by (simp add: fileLoop.simps [of u1 lines i] fileLoop.simps [of u2 lines i])
    next
      case other
      have "sameRecords (fileLoop u1 lines (i + 1) acc1 k1) (fileLoop u2 lines (i + 1) acc2 k2)"
        using "1.IH"(3) [OF True line_def other "1.prems"] .
      then show ?thesis
        using True other unfolding line_def
        by (simp add: fileLoop.simps [of u1 lines i] fileLoop.simps [of u2 lines i])
    next
      case cin
      have sr: "sameRecord (parseSingleCinema u1 lines i k1) (parseSingleCinema u2 lines i k2)"
        unfolding parseSingleCinema_def by (rule parseLoop_erase) simp
      show ?thesis
      proof (cases "parseSingleCinema u1 lines i k1")
        case (Inl e)
        then obtain e' where "parseSingleCinema u2 lines i k2 = Inl e'"
          using sr by (auto simp: sameRecord_def split: sum.splits)
        then show ?thesis
          using True cin Inl unfolding line_def
          by (simp add: fileLoop.simps [of u1 lines i] fileLoop.simps [of u2 lines i]
              sameRecords_def)
      next
        case (Inr r)
        obtain a e ka where r: "r = (a, e, ka)" by (cases r) auto
        then obtain b kb where b: "parseSingleCinema u2 lines i k2 = Inr (b, e, kb)"
          "eraseIds a = eraseIds b"
          using sr Inr by (auto simp: sameRecord_def split: sum.splits)
        have "map eraseIds (acc1 @ [a]) = map eraseIds (acc2 @ [b])"
          using "1.prems" b(2) by simp
        then have "sameRecords (fileLoop u1 lines e (acc1 @ [a]) ka)
            (fileLoop u2 lines e (acc2 @ [b]) kb)"
          using "1.IH"(2) [OF True line_def cin Inr r [symmetric] refl] by blast
        then show ?thesis
          using True cin Inr r b(1) unfolding line_def
          by (simp add: fileLoop.simps [of u1 lines i] fileLoop.simps [of u2 lines i])
      qed
    qed
  qed
qed

lemma unknownTypeText_ids:
  "map (\<lambda>c. map (\<lambda>a. ac_id (ac_base a)) (actions c)) (parseCinemaFile u unknownTypeText) = [[u 0]]"
  by (simp add: unknownTypeText_def loop_eval str_eval emptyCinema_def decodeCinemaHeader_def
      decodeAction_def parse_defaults ACTION_TYPE_REVERSE_def num_eval)


text \<open>Two runs of the decoder on the same text return different records when
  \<open>crypto.randomUUID\<close> yields different identifiers: the decoded action carries the
  identifier drawn.\<close>

theorem decoded_ids_depend_on_generator:
  "parseCinemaFile sampleUuids unknownTypeText \<noteq> parseCinemaFile otherUuids unknownTypeText"
proof
  assume "parseCinemaFile sampleUuids unknownTypeText = parseCinemaFile otherUuids unknownTypeText"
  then have "[[sampleUuids 0]] = [[otherUuids 0]]"
    using unknownTypeText_ids [of sampleUuids] unknownTypeText_ids [of otherUuids] by simp
  then show False by (simp add: sampleUuids_def otherUuids_def)
qed


text \<open>The identifiers of the decoded elements are the identifiers drawn. A turn of the loop
  that draws no identifier leaves the \<open>id\<close> fields as they are; one that draws the \<open>k\<close>-th
  identifier adds one element, which carries it.\<close>

lemma decodeAction_id: "ac_id (ac_base (decodeAction u idx v)) = u"
  by (simp add: decodeAction_def Let_def split: actionType.splits option.splits)

lemma elementIds_header: "elementIds (decodeCinemaHeader v c) = elementIds c"
  by (simp add: elementIds_def decodeCinemaHeader_def)

lemma elementIds_emptyCinema: "elementIds emptyCinema = []"
  by (simp add: elementIds_def emptyCinema_def)

lemma loopBody_ids:
  assumes "loopBody u lines i c k = Inr t"
  shows "case t of
           Return c' e k' \<Rightarrow> c' = c \<and> k' = k
         | Continue i' c' k' \<Rightarrow>
             k \<le> k' \<and> mset (elementIds c') = mset (elementIds c) + mset (map u [k..<k'])"
  using assms unfolding loopBody_def Let_def
  by (auto simp: elementIds_def decodeCinemaHeader_def decodeShot_def decodeSyncPoint_def
        decodeCameraPath_def decodeAction_id Let_def
      split: if_splits sum.splits option.splits prod.splits)

lemma parseLoop_ids:
  "parseLoop u lines i c k = Inr (c', e, k') \<Longrightarrow>
     k \<le> k' \<and> mset (elementIds c') = mset (elementIds c) + mset (map u [k..<k'])"
proof (induction u lines i c k rule: parseLoop.induct)
  case (1 u lines i c k)
  show ?case
  proof (cases "i < length lines")
    case False
    then show ?thesis using "1.prems" by (subst (asm) parseLoop.simps) simp
  next
    case True
    show ?thesis
    proof (cases "loopBody u lines i c k")
      case (Inl err)
      then show ?thesis using True "1.prems" by (subst (asm) parseLoop.simps) simp
    next
      case (Inr t)
      show ?thesis
      proof (cases t)
        case (Return c0 e0 k0)
        then have "c' = c0" "k' = k0"
          using True Inr "1.prems" by (subst (asm) parseLoop.simps; simp)+
        then show ?thesis using loopBody_ids [OF Inr] Return by simp
      next
        case (Continue i0 c0 k0)
        then have "parseLoop u lines i0 c0 k0 = Inr (c', e, k')"
          using True Inr "1.prems" by (subst (asm) parseLoop.simps) simp
        then have ih: "k0 \<le> k'"
          "mset (elementIds c') = mset (elementIds c0) + mset (map u [k0..<k'])"
          using "1.IH" [OF True Inr Continue] by simp_all
        have st: "k \<le> k0" "mset (elementIds c0) = mset (elementIds c) + mset (map u [k..<k0])"
          using loopBody_ids [OF Inr] Continue by simp_all
        have "[k..<k'] = [k..<k0] @ [k0..<k']"
          using ih(1) st(1) by (metis le_Suc_ex upt_add_eq_append)
        then show ?thesis using ih st by simp
      qed
    qed
  qed
qed

lemma fileLoop_ids:
  "fileLoop u lines i cinemas k = Inr out \<Longrightarrow>
     \<exists>k'. k \<le> k'
       \<and> mset (concat (map elementIds out))
           = mset (concat (map elementIds cinemas)) + mset (map u [k..<k'])"
proof (induction u lines i cinemas k rule: fileLoop.induct)
  case (1 u lines i cinemas k)
  let ?line = "trim (lines ! i)"
  show ?case
  proof (cases "i < length lines")
    case False
    then have "out = cinemas" using "1.prems" by (subst (asm) fileLoop.simps) simp
    then show ?thesis by (intro exI [of _ k]) simp
  next
    case lt: True
    show ?thesis
    proof (cases "startsWith ?line ''//'' \<or> ?line = []")
      case True
      then have "fileLoop u lines (i + 1) cinemas k = Inr out"
        using lt "1.prems" by (subst (asm) fileLoop.simps) (simp add: Let_def)
      then show ?thesis using "1.IH"(1) [OF lt refl True] by simp
    next
      case False
      show ?thesis
      proof (cases "startsWith ?line ''[ Cinema :''")
        case c: True
        show ?thesis
        proof (cases "parseSingleCinema u lines i k")
          case (Inl err)
          then show ?thesis
            using lt False c "1.prems" by (subst (asm) fileLoop.simps) (simp add: Let_def)
        next
          case (Inr res)
          obtain cinema rest where res: "(cinema, rest) = res" by (cases res) auto
          obtain endIndex k0 where rest: "(endIndex, k0) = rest" by (cases rest) auto
          have "fileLoop u lines endIndex (cinemas @ [cinema]) k0 = Inr out"
            using lt False c Inr res [symmetric] rest [symmetric] "1.prems"
            by (subst (asm) fileLoop.simps) (simp add: Let_def)
          then obtain k' where k': "k0 \<le> k'"
            "mset (concat (map elementIds out))
               = mset (concat (map elementIds (cinemas @ [cinema]))) + mset (map u [k0..<k'])"
            using "1.IH"(2) [OF lt refl False c Inr res rest] by blast
          have "parseLoop u lines i emptyCinema k = Inr (cinema, endIndex, k0)"
            using Inr res rest by (simp add: parseSingleCinema_def)
          then have st: "k \<le> k0" "mset (elementIds cinema) = mset (map u [k..<k0])"
            using parseLoop_ids [of u lines i emptyCinema k cinema endIndex k0]
            by (simp_all add: elementIds_emptyCinema)
          have "[k..<k'] = [k..<k0] @ [k0..<k']"
            using k'(1) st(1) by (metis le_Suc_ex upt_add_eq_append)
          then have "mset (concat (map elementIds out))
              = mset (concat (map elementIds cinemas)) + mset (map u [k..<k'])"
            using k'(2) st(2) by simp
          moreover have "k \<le> k'" using k'(1) st(1) by simp
          ultimately show ?thesis by blast
        qed
      next
        case n: False
        then have "fileLoop u lines (i + 1) cinemas k = Inr out"
          using lt False "1.prems" by (subst (asm) fileLoop.simps) (simp add: Let_def)
        then show ?thesis using "1.IH"(3) [OF lt refl False n] by simp
      qed
    qed
  qed
qed

lemma parseCinemaFile_ids:
  "mset (concat (map elementIds (parseCinemaFile u content)))
     = mset (map u [0..<length (concat (map elementIds (parseCinemaFile u content)))])"
proof (cases "fileLoop u (splitOn newline content) 0 [] 0")
  case (Inl err)
  then show ?thesis by (simp add: parseCinemaFile_def)
next
  case (Inr out)
  then obtain k' where k': "mset (concat (map elementIds out)) = mset (map u [0..<k'])"
    using fileLoop_ids [of u "splitOn newline content" 0 "[]" 0 out] by auto
  then have "size (mset (concat (map elementIds out))) = size (mset (map u [0..<k']))"
    by simp
  then have "length (concat (map elementIds out)) = k'" by simp
  then show ?thesis using Inr k' by (simp add: parseCinemaFile_def)
qed


text \<open>C4 (as amended). The decoder draws a fresh identifier from \<open>crypto.randomUUID\<close> for
  every Shot, SyncPoint, Action and CameraPath it decodes: the \<open>id\<close> fields of all decoded
  elements are, each once, the identifiers drawn during the call, from the first one on.
  Apart from these \<open>id\<close> fields the result is determined by the input text: two runs on the
  same text agree on every other field, whatever identifiers are drawn.\<close>

theorem decode_deterministic_up_to_ids:
  "map eraseIds (parseCinemaFile uuids1 content) = map eraseIds (parseCinemaFile uuids2 content)
   \<and> mset (concat (map elementIds (parseCinemaFile uuids1 content)))
       = mset (map uuids1 [0..<length (concat (map elementIds (parseCinemaFile uuids1 content)))])"
proof
  have "sameRecords (fileLoop uuids1 (splitOn newline content) 0 [] 0)
      (fileLoop uuids2 (splitOn newline content) 0 [] 0)"
    by (rule fileLoop_erase) simp
  then show "map eraseIds (parseCinemaFile uuids1 content)
      = map eraseIds (parseCinemaFile uuids2 content)"
    by (auto simp: parseCinemaFile_def sameRecords_def split: sum.splits)
  show "mset (concat (map elementIds (parseCinemaFile uuids1 content)))
       = mset (map uuids1 [0..<length (concat (map elementIds (parseCinemaFile uuids1 content)))])"
    by (rule parseCinemaFile_ids)
qed


theorem decode_deterministic_up_to_ids_witness:
  "map eraseIds (parseCinemaFile sampleUuids unknownTypeText)
     = map eraseIds (parseCinemaFile otherUuids unknownTypeText)
   \<and> concat (map elementIds (parseCinemaFile sampleUuids unknownTypeText)) = [''uuid-0'']"
proof -
  have "concat (map elementIds (parseCinemaFile sampleUuids unknownTypeText)) = [sampleUuids 0]"
    by (simp add: unknownTypeText_def loop_eval str_eval emptyCinema_def decodeCinemaHeader_def
        decodeAction_def parse_defaults ACTION_TYPE_REVERSE_def num_eval elementIds_def)
  then show ?thesis
    using decode_deterministic_up_to_ids [of sampleUuids unknownTypeText otherUuids]
    by (simp add: sampleUuids_def showNat_eval)
qed

section \<open>The boundary between two records\<close>

text \<open>C6 (the code at the failing input). The decoder takes a record to be in progress when
  the GUID decoded so far is not empty. In a text of two Cinema sections, each with a Shot,
  whose first GUID is empty, the second Cinema header therefore does not end the record: its
  fields overwrite those of the first header and the shots of both sections end up in one
  record, so that \<open>parseCinemaFile\<close> returns one record where the text holds two. With the
  GUIDs \<open>A\<close> and \<open>B\<close> the two sections give two records.\<close>

theorem empty_guid_merges_records:
  "map (\<lambda>c. (guid c, map sh_name (shots c))) (parseCinemaFile sampleUuids mergedCinemasText)
     = [(''B'', [''a'', ''b''])]
   \<and> length (parseCinemaFile sampleUuids mergedCinemasText) = 1
   \<and> map guid (parseCinemaFile sampleUuids twoCinemasText) = [''A'', ''B'']"
proof -
  have m: "map (\<lambda>c. (guid c, map sh_name (shots c)))
      (parseCinemaFile sampleUuids mergedCinemasText) = [(''B'', [''a'', ''b''])]"
    by (simp add: mergedCinemasText_def loop_eval str_eval emptyCinema_def
        decodeCinemaHeader_def decodeShot_def parse_defaults num_eval)
  have "length (map (\<lambda>c. (guid c, map sh_name (shots c)))
      (parseCinemaFile sampleUuids mergedCinemasText)) = 1"
    by (simp only: m) simp
  then have l: "length (parseCinemaFile sampleUuids mergedCinemasText) = 1" by simp
  have t: "map guid (parseCinemaFile sampleUuids twoCinemasText) = [''A'', ''B'']"
    by (simp add: twoCinemasText_def twoCinemasLines_def loop_eval str_eval emptyCinema_def
        decodeCinemaHeader_def parse_defaults num_eval)
  show ?thesis using m l t by simp
qed

section \<open>Section names of the encoder\<close>

lemma triples_length:
  "length (concat (map (\<lambda>(i, x). [f i, g i, h x]) (enumerate n xs))) = 3 * length xs"
  by (induction xs arbitrary: n) simp_all

lemma triples_nth:
  "j < length xs \<Longrightarrow>
     concat (map (\<lambda>(i, x). [f i, g i, h x]) (enumerate n xs)) ! (3 * j) = f (n + j)"
proof (induction xs arbitrary: n j)
  case Nil
  then show ?case by simp
next
  case (Cons x xs)
  show ?case
  proof (cases j)
    case 0
    then show ?thesis by simp
  next
    case (Suc j')
    then have "j' < length xs" using Cons.prems by simp
    then have "concat (map (\<lambda>(i, x). [f i, g i, h x]) (enumerate (Suc n) xs)) ! (3 * j')
        = f (Suc n + j')"
      by (rule Cons.IH)
    moreover have "3 * j = Suc (Suc (Suc (3 * j')))" using Suc by simp
    ultimately show ?thesis using Suc by simp
  qed
qed

lemma enumerate_nth_map:
  "j < length xs \<Longrightarrow> map (\<lambda>(i, x). F x i) (enumerate n xs) ! j = F (xs ! j) (n + j)"
  by (simp add: nth_enumerate_eq)

lemma map_enumerate_map:
  "map (\<lambda>(i, x). G i x) (enumerate n (map F xs)) = map (\<lambda>(i, x). G i (F x)) (enumerate n xs)"
  by (induction xs arbitrary: n) simp_all

lemma exportAction_head:
  "\<exists>rest. exportAction a i = ''[ Action'' @ numToString (Fin (of_nat i)) @ '' : 1 ]'' @ [newline] @ rest"
  by (cases a) (simp_all add: exportAction_def Let_def)

lemma exportAction_index:
  "exportAction (withActionIndex n a) i = exportAction a i"
  by (cases a)
     (simp_all add: exportAction_def withActionIndex_def Let_def cameraValueLine_def
        dialogValueLine_def popValueLine_def fadeValueLine_def charAnimValueLine_def
        objAnimValueLine_def triggerValueLine_def)


lemma exportCinemaLines_shot:
  assumes "i < length (shots cinema)"
  shows "exportCinemaLines cinema ! (3 + 3 * i) = shotSectionLine i"
proof -
  let ?S = "concat (map (\<lambda>(i, sh). [shotSectionLine i, shotSchemaLine i, shotValueLine sh])
               (enumerate 0 (shots cinema)))"
  have len: "length ?S = 3 * length (shots cinema)" by (rule triples_length)
  have "3 * i < length ?S" using assms len by simp
  moreover have "?S ! (3 * i) = shotSectionLine (0 + i)" using assms by (rule triples_nth)
  ultimately show ?thesis
    by (simp add: exportCinemaLines_def nth_append)
qed

lemma exportCinemaLines_syncPoint:
  assumes "i < length (syncPoints cinema)"
  shows "exportCinemaLines cinema ! (3 + 3 * length (shots cinema) + 1 + 3 * i)
           = syncPointSectionLine i"
proof -
  let ?S = "concat (map (\<lambda>(i, sh). [shotSectionLine i, shotSchemaLine i, shotValueLine sh])
               (enumerate 0 (shots cinema)))"
  let ?P = "concat (map (\<lambda>(i, sp). [syncPointSectionLine i, syncPointSchemaLine i,
               syncPointValueLine sp]) (enumerate 0 (syncPoints cinema)))"
  have lenS: "length ?S = 3 * length (shots cinema)" by (rule triples_length)
  have lenP: "length ?P = 3 * length (syncPoints cinema)" by (rule triples_length)
  have "3 * i < length ?P" using assms lenP by simp
  moreover have "?P ! (3 * i) = syncPointSectionLine (0 + i)" using assms by (rule triples_nth)
  ultimately show ?thesis
    using lenS by (simp add: exportCinemaLines_def nth_append)
qed

lemma exportCinemaLines_action:
  assumes "i < length (actions cinema)"
  shows "exportCinemaLines cinema
           ! (3 + 3 * length (shots cinema) + 1 + 3 * length (syncPoints cinema) + 2 + i)
           = exportAction (actions cinema ! i) i"
proof -
  let ?S = "concat (map (\<lambda>(i, sh). [shotSectionLine i, shotSchemaLine i, shotValueLine sh])
               (enumerate 0 (shots cinema)))"
  let ?P = "concat (map (\<lambda>(i, sp). [syncPointSectionLine i, syncPointSchemaLine i,
               syncPointValueLine sp]) (enumerate 0 (syncPoints cinema)))"
  let ?A = "map (\<lambda>(i, action). exportAction action i) (enumerate 0 (actions cinema))"
  have lenS: "length ?S = 3 * length (shots cinema)" by (rule triples_length)
  have lenP: "length ?P = 3 * length (syncPoints cinema)" by (rule triples_length)
  have "?A ! i = exportAction (actions cinema ! i) (0 + i)"
    using assms by (rule enumerate_nth_map)
  then show ?thesis
    using lenS lenP assms by (simp add: exportCinemaLines_def nth_append)
qed

lemma exportCinema_ignores_index:
  "exportCinema
     (cinema\<lparr> shots := map (\<lambda>s. s\<lparr>sh_index := f s\<rparr>) (shots cinema),
              syncPoints := map (\<lambda>s. s\<lparr>sp_index := g s\<rparr>) (syncPoints cinema),
              actions := map (\<lambda>a. withActionIndex (h a) a) (actions cinema) \<rparr>)
     = exportCinema cinema"
proof -
  have sh: "\<And>s. shotValueLine (s\<lparr>sh_index := f s\<rparr>) = shotValueLine s"
    by (simp add: shotValueLine_def)
  have sp: "\<And>s. syncPointValueLine (s\<lparr>sp_index := g s\<rparr>) = syncPointValueLine s"
    by (simp add: syncPointValueLine_def)
  have "exportCinemaLines
     (cinema\<lparr> shots := map (\<lambda>s. s\<lparr>sh_index := f s\<rparr>) (shots cinema),
              syncPoints := map (\<lambda>s. s\<lparr>sp_index := g s\<rparr>) (syncPoints cinema),
              actions := map (\<lambda>a. withActionIndex (h a) a) (actions cinema) \<rparr>)
     = exportCinemaLines cinema"
    by (simp add: exportCinemaLines_def map_enumerate_map sh sp exportAction_index
        cinemaValueLine_def participantsSectionLine_def)
  then show ?thesis by (simp add: exportCinema_def)
qed


lemma exportCinemaLines_length:
  "length (exportCinemaLines cinema) =
     3 + 3 * length (shots cinema) + 1 + 3 * length (syncPoints cinema) + 2
       + length (actions cinema) + 1 + 2 + length (participants cinema) + 6 + 1
       + length (cameraPaths cinema)"
  by (simp add: exportCinemaLines_def triples_length)

lemma join_append:
  "xs \<noteq> [] \<Longrightarrow> ys \<noteq> [] \<Longrightarrow> join sep (xs @ ys) = join sep xs @ sep @ join sep ys"
proof (induction xs rule: list_nonempty_induct)
  case (single x)
  then show ?case by (cases ys) simp_all
next
  case (cons x xs)
  then show ?case by (cases xs) simp_all
qed

text \<open>The text of a joined array around its \<open>n\<close>-th element, which is neither the first nor
  the last.\<close>

lemma join_nth:
  assumes "0 < n" and "Suc n < length xs"
  shows "join sep xs =
           join sep (take n xs) @ sep @ xs ! n @ sep @ join sep (drop (Suc n) xs)"
proof -
  have n: "n < length xs" using assms(2) by simp
  have xs: "xs = take n xs @ (xs ! n # drop (Suc n) xs)"
    using n by (simp add: id_take_nth_drop [symmetric])
  have a: "take n xs \<noteq> []" using assms(1) n by (cases xs) auto
  have b: "drop (Suc n) xs \<noteq> []" using assms(2) by simp
  have "join sep (take n xs @ (xs ! n # drop (Suc n) xs))
      = join sep (take n xs) @ sep @ join sep (xs ! n # drop (Suc n) xs)"
    using a by (intro join_append) simp_all
  moreover have "join sep (xs ! n # drop (Suc n) xs) = xs ! n @ sep @ join sep (drop (Suc n) xs)"
    using b by (cases "drop (Suc n) xs") simp_all
  ultimately show ?thesis using xs by simp
qed

lemma exportCinema_around:
  assumes "0 < n" and "Suc n < length (exportCinemaLines cinema)"
  shows "exportCinema cinema =
           join [newline] (take n (exportCinemaLines cinema)) @ [newline]
             @ exportCinemaLines cinema ! n @ [newline]
             @ join [newline] (drop (Suc n) (exportCinemaLines cinema))"
  unfolding exportCinema_def using assms by (rule join_nth)


text \<open>C9. The encoder names the section of a Shot, SyncPoint or Action after the element's
  position in its array: the line pushed for the \<open>i\<close>-th element starts the section
  \<open>Shot\<close>, \<open>SyncPoint\<close> or \<open>Action\<close> followed by the numeral of \<open>i\<close>, and the text that
  \<open>exportCinema\<close> returns holds that section name on a line of its own, after the lines
  pushed before it and before the lines pushed after it. The stored \<open>index\<close> fields are not
  read: replacing them by any values leaves the output unchanged.\<close>

theorem export_section_names_by_position:
  "(i < length (shots cinema) \<longrightarrow>
      exportCinemaLines cinema ! (3 + 3 * i)
        = ''[ Shot'' @ numToString (Fin (of_nat i)) @ '' : 1 ]''
      \<and> exportCinema cinema =
          join [newline] (take (3 + 3 * i) (exportCinemaLines cinema)) @ [newline]
            @ ''[ Shot'' @ numToString (Fin (of_nat i)) @ '' : 1 ]'' @ [newline]
            @ join [newline] (drop (4 + 3 * i) (exportCinemaLines cinema)))
   \<and> (i < length (syncPoints cinema) \<longrightarrow>
      exportCinemaLines cinema ! (3 + 3 * length (shots cinema) + 1 + 3 * i)
        = ''[ SyncPoint'' @ numToString (Fin (of_nat i)) @ '' : 1 ]''
      \<and> exportCinema cinema =
          join [newline]
            (take (3 + 3 * length (shots cinema) + 1 + 3 * i) (exportCinemaLines cinema))
            @ [newline] @ ''[ SyncPoint'' @ numToString (Fin (of_nat i)) @ '' : 1 ]'' @ [newline]
            @ join [newline]
                (drop (3 + 3 * length (shots cinema) + 2 + 3 * i) (exportCinemaLines cinema)))
   \<and> (i < length (actions cinema) \<longrightarrow>
      (\<exists>rest. exportCinemaLines cinema
           ! (3 + 3 * length (shots cinema) + 1 + 3 * length (syncPoints cinema) + 2 + i)
         = ''[ Action'' @ numToString (Fin (of_nat i)) @ '' : 1 ]'' @ [newline] @ rest
         \<and> exportCinema cinema =
             join [newline]
               (take (3 + 3 * length (shots cinema) + 1 + 3 * length (syncPoints cinema) + 2 + i)
                  (exportCinemaLines cinema))
               @ [newline] @ ''[ Action'' @ numToString (Fin (of_nat i)) @ '' : 1 ]''
               @ [newline] @ rest @ [newline]
               @ join [newline]
                   (drop (3 + 3 * length (shots cinema) + 1 + 3 * length (syncPoints cinema)
                            + 3 + i)
                      (exportCinemaLines cinema))))
   \<and> (i < 10 ^ 21 \<longrightarrow> numToString (Fin (of_nat i)) = showNat i)
   \<and> exportCinema
        (cinema\<lparr> shots := map (\<lambda>s. s\<lparr>sh_index := f s\<rparr>) (shots cinema),
                 syncPoints := map (\<lambda>s. s\<lparr>sp_index := g s\<rparr>) (syncPoints cinema),
                 actions := map (\<lambda>a. withActionIndex (h a) a) (actions cinema) \<rparr>)
        = exportCinema cinema"
proof (intro conjI impI)
  let ?L = "exportCinemaLines cinema"
  note len = exportCinemaLines_length [of cinema]
  {
    assume i: "i < length (shots cinema)"
    show l: "?L ! (3 + 3 * i) = ''[ Shot'' @ numToString (Fin (of_nat i)) @ '' : 1 ]''"
      using exportCinemaLines_shot [OF i] by (simp add: shotSectionLine_def del: numToString.simps)
    have "exportCinema cinema =
        join [newline] (take (3 + 3 * i) ?L) @ [newline] @ ?L ! (3 + 3 * i) @ [newline]
          @ join [newline] (drop (Suc (3 + 3 * i)) ?L)"
      using i len by (intro exportCinema_around) simp_all
    then show "exportCinema cinema =
          join [newline] (take (3 + 3 * i) ?L) @ [newline]
            @ ''[ Shot'' @ numToString (Fin (of_nat i)) @ '' : 1 ]'' @ [newline]
            @ join [newline] (drop (4 + 3 * i) ?L)"
      by (simp add: l del: numToString.simps)
  }
  {
    assume i: "i < length (syncPoints cinema)"
    let ?n = "3 + 3 * length (shots cinema) + 1 + 3 * i"
    show l: "?L ! ?n = ''[ SyncPoint'' @ numToString (Fin (of_nat i)) @ '' : 1 ]''"
      using exportCinemaLines_syncPoint [OF i]
      by (simp add: syncPointSectionLine_def del: numToString.simps)
    have "exportCinema cinema =
        join [newline] (take ?n ?L) @ [newline] @ ?L ! ?n @ [newline]
          @ join [newline] (drop (Suc ?n) ?L)"
      using i len by (intro exportCinema_around) simp_all
    moreover have "Suc ?n = 3 + 3 * length (shots cinema) + 2 + 3 * i" by simp
    ultimately show "exportCinema cinema =
          join [newline] (take ?n ?L)
            @ [newline] @ ''[ SyncPoint'' @ numToString (Fin (of_nat i)) @ '' : 1 ]'' @ [newline]
            @ join [newline] (drop (3 + 3 * length (shots cinema) + 2 + 3 * i) ?L)"
      by (simp only: l append_assoc)
  }
  {
    assume i: "i < length (actions cinema)"
    let ?n = "3 + 3 * length (shots cinema) + 1 + 3 * length (syncPoints cinema) + 2 + i"
    obtain rest where rest: "exportAction (actions cinema ! i) i
        = ''[ Action'' @ numToString (Fin (of_nat i)) @ '' : 1 ]'' @ [newline] @ rest"
      using exportAction_head by blast
    have l: "?L ! ?n = ''[ Action'' @ numToString (Fin (of_nat i)) @ '' : 1 ]'' @ [newline] @ rest"
      using exportCinemaLines_action [OF i] rest by (simp only:)
    have "exportCinema cinema =
        join [newline] (take ?n ?L) @ [newline] @ ?L ! ?n @ [newline]
          @ join [newline] (drop (Suc ?n) ?L)"
      using i len by (intro exportCinema_around) simp_all
    moreover have "Suc ?n
        = 3 + 3 * length (shots cinema) + 1 + 3 * length (syncPoints cinema) + 3 + i"
      by simp
    ultimately have "exportCinema cinema =
             join [newline] (take ?n ?L)
               @ [newline] @ ''[ Action'' @ numToString (Fin (of_nat i)) @ '' : 1 ]''
               @ [newline] @ rest @ [newline]
               @ join [newline]
                   (drop (3 + 3 * length (shots cinema) + 1 + 3 * length (syncPoints cinema)
                            + 3 + i) ?L)"
      by (simp only: l append_assoc)
    then show "\<exists>rest. ?L ! ?n
         = ''[ Action'' @ numToString (Fin (of_nat i)) @ '' : 1 ]'' @ [newline] @ rest
         \<and> exportCinema cinema =
             join [newline] (take ?n ?L)
               @ [newline] @ ''[ Action'' @ numToString (Fin (of_nat i)) @ '' : 1 ]''
               @ [newline] @ rest @ [newline]
               @ join [newline]
                   (drop (3 + 3 * length (shots cinema) + 1 + 3 * length (syncPoints cinema)
                            + 3 + i) ?L)"
      using l by blast
  }
  show "numToString (Fin (of_nat i)) = showNat i" if "i < 10 ^ 21"
    using that by (rule numToString_of_nat)
  show "exportCinema
        (cinema\<lparr> shots := map (\<lambda>s. s\<lparr>sh_index := f s\<rparr>) (shots cinema),
                 syncPoints := map (\<lambda>s. s\<lparr>sp_index := g s\<rparr>) (syncPoints cinema),
                 actions := map (\<lambda>a. withActionIndex (h a) a) (actions cinema) \<rparr>)
        = exportCinema cinema"
    by (rule exportCinema_ignores_index)
qed


theorem export_section_names_by_position_witness:
  "exportCinemaLines staleIndexCinema ! 3 = ''[ Shot0 : 1 ]''
   \<and> exportCinemaLines staleIndexCinema ! 6 = ''[ Shot1 : 1 ]''
   \<and> exportCinemaLines staleIndexCinema ! 9 = ''[ Shot2 : 1 ]''
   \<and> exportCinema staleIndexCinema =
       join [newline] (take 3 (exportCinemaLines staleIndexCinema)) @ [newline]
         @ ''[ Shot0 : 1 ]'' @ [newline]
         @ join [newline] (drop 4 (exportCinemaLines staleIndexCinema))
   \<and> exportCinema staleIndexCinema =
       join [newline] (take 6 (exportCinemaLines staleIndexCinema)) @ [newline]
         @ ''[ Shot1 : 1 ]'' @ [newline]
         @ join [newline] (drop 7 (exportCinemaLines staleIndexCinema))
   \<and> exportCinema staleIndexCinema =
       join [newline] (take 9 (exportCinemaLines staleIndexCinema)) @ [newline]
         @ ''[ Shot2 : 1 ]'' @ [newline]
         @ join [newline] (drop 10 (exportCinemaLines staleIndexCinema))"
proof -
  have len: "length (shots staleIndexCinema) = 3"
    by (simp add: staleIndexCinema_def)
  have n: "numToString (Fin (of_nat 0)) = ''0''" "numToString (Fin (of_nat 1)) = ''1''"
    "numToString (Fin (of_nat 2)) = ''2''"
    using numToString_of_nat [of 0] numToString_of_nat [of 1] numToString_of_nat [of 2]
    by (simp_all add: showNat_eval del: numToString.simps)
  have a: "exportCinemaLines staleIndexCinema ! (3 + 3 * 0) = ''[ Shot0 : 1 ]''
      \<and> exportCinema staleIndexCinema =
          join [newline] (take (3 + 3 * 0) (exportCinemaLines staleIndexCinema)) @ [newline]
            @ ''[ Shot0 : 1 ]'' @ [newline]
            @ join [newline] (drop (4 + 3 * 0) (exportCinemaLines staleIndexCinema))"
    using export_section_names_by_position [of 0 staleIndexCinema] len n(1)
    by (simp del: numToString.simps)
  have b: "exportCinemaLines staleIndexCinema ! (3 + 3 * 1) = ''[ Shot1 : 1 ]''
      \<and> exportCinema staleIndexCinema =
          join [newline] (take (3 + 3 * 1) (exportCinemaLines staleIndexCinema)) @ [newline]
            @ ''[ Shot1 : 1 ]'' @ [newline]
            @ join [newline] (drop (4 + 3 * 1) (exportCinemaLines staleIndexCinema))"
    using export_section_names_by_position [of 1 staleIndexCinema] len n(2)
    by (simp del: numToString.simps)
  have c: "exportCinemaLines staleIndexCinema ! (3 + 3 * 2) = ''[ Shot2 : 1 ]''
      \<and> exportCinema staleIndexCinema =
          join [newline] (take (3 + 3 * 2) (exportCinemaLines staleIndexCinema)) @ [newline]
            @ ''[ Shot2 : 1 ]'' @ [newline]
            @ join [newline] (drop (4 + 3 * 2) (exportCinemaLines staleIndexCinema))"
    using export_section_names_by_position [of 2 staleIndexCinema] len n(3)
    by (simp del: numToString.simps)
  show ?thesis using a b c by simp
qed

section \<open>The round trip\<close>

subsection \<open>Numerals read back\<close>

lemma digitVal_digitChar: "d < 10 \<Longrightarrow> digitVal (digitChar d) = d"
  by (drule less_10_cases) (auto simp: digitVal_def digitChar_simps)

lemma digitsToNat_snoc: "digitsToNat (ds @ [c]) = 10 * digitsToNat ds + digitVal c"
  by (simp add: digitsToNat_def)

lemma digitsToNat_append:
  "digitsToNat (xs @ ys) = digitsToNat xs * 10 ^ length ys + digitsToNat ys"
proof (induction ys rule: rev_induct)
  case Nil
  show ?case by (simp add: digitsToNat_def)
next
  case (snoc y ys)
  have "digitsToNat (xs @ ys @ [y]) = 10 * digitsToNat (xs @ ys) + digitVal y"
    using digitsToNat_snoc [of "xs @ ys" y] by simp
  then show ?case
    by (simp add: snoc.IH digitsToNat_snoc algebra_simps)
qed

lemma digitsToNat_showNat: "digitsToNat (showNat n) = n"
proof (induction n rule: showNat.induct)
  case (1 n)
  show ?case
  proof (cases "n < 10")
    case True
    then show ?thesis
      by (simp add: showNat_small digitsToNat_def digitVal_digitChar)
  next
    case False
    then have "digitsToNat (showNat (n div 10)) = n div 10" using 1 by simp
    then show ?thesis
      using False by (simp add: showNat_step digitsToNat_snoc digitVal_digitChar)
  qed
qed

lemma digitsToNat_zeros: "digitsToNat (replicate k CHR ''0'' @ ds) = digitsToNat ds"
proof -
  have "digitsToNat (replicate k CHR ''0'') = 0"
  proof (induction k)
    case 0
    show ?case by (simp add: digitsToNat_def)
  next
    case (Suc k)
    have "replicate (Suc k) CHR ''0'' = replicate k CHR ''0'' @ [CHR ''0'']"
      by (simp add: replicate_append_same)
    then show ?case
      using Suc by (simp add: digitsToNat_snoc digitVal_def del: replicate_Suc)
  qed
  then show ?thesis by (simp add: digitsToNat_append)
qed

lemma digitsToNat_trailing_zeros:
  "digitsToNat (ds @ replicate k CHR ''0'') = digitsToNat ds * 10 ^ k"
proof -
  have "digitsToNat (replicate k CHR ''0'') = 0"
    using digitsToNat_zeros [of k "[]"] by (simp add: digitsToNat_def)
  then show ?thesis by (simp add: digitsToNat_append)
qed

lemma takeWhile_all: "list_all P xs \<Longrightarrow> takeWhile P xs = xs"
  by (induction xs) auto

lemma dropWhile_all: "list_all P xs \<Longrightarrow> dropWhile P xs = []"
  by (induction xs) auto

lemma takeWhile_digits_point:
  "list_all isDigit ds \<Longrightarrow> takeWhile isDigit (ds @ CHR ''.'' # rest) = ds"
  by (induction ds) (auto simp: isDigit_def)

lemma dropWhile_digits_point:
  "list_all isDigit ds \<Longrightarrow> dropWhile isDigit (ds @ CHR ''.'' # rest) = CHR ''.'' # rest"
  by (induction ds) (auto simp: isDigit_def)

lemma parseUnsigned_digits:
  assumes "list_all isDigit ds" and "ds \<noteq> []"
  shows "parseUnsigned ds = Some (of_nat (digitsToNat ds))"
  using assms
  by (simp add: parseUnsigned_def takeWhile_all dropWhile_all exponentPart_def scale10_def Let_def)

lemma parseUnsigned_decimal:
  assumes "list_all isDigit ip" and "ip \<noteq> []" and "list_all isDigit fr"
  shows "parseUnsigned (ip @ CHR ''.'' # fr)
           = Some (of_nat (digitsToNat (ip @ fr)) / 10 ^ length fr)"
  using assms
  by (simp add: parseUnsigned_def takeWhile_digits_point dropWhile_digits_point takeWhile_all
      dropWhile_all exponentPart_def scale10_def Let_def)

lemma isDigit_not_space: "isDigit c \<Longrightarrow> \<not> isSpace c"
  by (auto simp: isDigit_def isSpace_def)

lemma digits_not_Infinity:
  assumes "list_all isDigit ds" and "ds \<noteq> []"
  shows "\<not> startsWith (ds @ rest) ''Infinity''"
proof -
  obtain d r where "ds = d # r" "isDigit d" using assms by (cases ds) auto
  then show ?thesis by (auto simp: isDigit_def)
qed

text \<open>The text \<open>s\<close> reads as the number \<open>q\<close> with the sign \<open>neg\<close>.\<close>

lemma parseFloat_signed:
  assumes "parseUnsigned u = Some q" and "u \<noteq> []" and "isDigit (hd u)"
  shows "parseFloat u = Fin q" "parseFloat (CHR ''-'' # u) = Fin (- q)"
proof -
  have nsp: "\<not> isSpace (hd u)" using assms(3) by (rule isDigit_not_space)
  have ninf: "\<not> startsWith u ''Infinity''"
    using assms(2,3) by (cases u) (auto simp: isDigit_def)
  have nsign: "hd u \<noteq> CHR ''-''" "hd u \<noteq> CHR ''+''"
    using assms(3) by (auto simp: isDigit_def)
  have d: "dropWhile isSpace u = u" using nsp assms(2) by (cases u) auto
  show "parseFloat u = Fin q"
    using assms(1,2) ninf nsign by (simp add: parseFloat_def d Let_def)
  have "dropWhile isSpace (CHR ''-'' # u) = CHR ''-'' # u" by (simp add: isSpace_def)
  then show "parseFloat (CHR ''-'' # u) = Fin (- q)"
    using assms(1) ninf by (simp add: parseFloat_def Let_def)
qed

lemma parseFloat_decimalOfInt: "parseFloat (decimalOfInt z) = Fin (of_int z)"
proof -
  have u: "\<And>n. parseUnsigned (showNat n) = Some (of_nat n)"
    by (simp add: parseUnsigned_digits showNat_digits showNat_nonempty digitsToNat_showNat)
  have h: "\<And>n. showNat n \<noteq> [] \<and> isDigit (hd (showNat n))"
  proof -
    fix n
    obtain d r where "showNat n = d # r" using showNat_nonempty [of n] by (cases "showNat n") auto
    then show "showNat n \<noteq> [] \<and> isDigit (hd (showNat n))"
      using showNat_digits [of n] by simp
  qed
  show ?thesis
  proof (cases "z < 0")
    case True
    have "parseFloat (CHR ''-'' # showNat (nat (- z))) = Fin (- of_nat (nat (- z)))"
      using u h by (intro parseFloat_signed(2)) auto
    then show ?thesis using True by (simp add: decimalOfInt_def)
  next
    case False
    have "parseFloat (showNat (nat z)) = Fin (of_nat (nat z))"
      using u h by (intro parseFloat_signed(1)) auto
    then show ?thesis using False by (simp add: decimalOfInt_def)
  qed
qed

lemma intField_cases:
  assumes "intField n"
  obtains z where "n = Fin (of_int z)" and "\<bar>z\<bar> < 10 ^ 21"
proof -
  obtain r where r: "n = Fin r" "of_int \<lfloor>r\<rfloor> = r" "\<bar>r\<bar> < 10 ^ 21"
    using assms by (cases n) auto
  have "(of_int \<bar>\<lfloor>r\<rfloor>\<bar> :: rat) < of_int (10 ^ 21)" using r(2,3) by (metis of_int_abs of_int_numeral of_int_power)
  then have "\<bar>\<lfloor>r\<rfloor>\<bar> < 10 ^ 21" by (simp only: of_int_less_iff)
  then show ?thesis using that [of "\<lfloor>r\<rfloor>"] r by simp
qed

lemma intField_render:
  assumes "intField n"
  shows "numToString n = decimalOfInt (case n of Fin r \<Rightarrow> \<lfloor>r\<rfloor>)" "mathFloor n = n"
    "parseIntVal (numToString n) = n"
proof -
  obtain z where z: "n = Fin (of_int z)" "\<bar>z\<bar> < 10 ^ 21" using assms by (rule intField_cases)
  show a: "numToString n = decimalOfInt (case n of Fin r \<Rightarrow> \<lfloor>r\<rfloor>)"
    using z numToString_of_int [of z] by (simp del: numToString.simps)
  show "mathFloor n = n" using z by simp
  show "parseIntVal (numToString n) = n"
    using z a by (simp add: parseIntVal_def parseFloat_decimalOfInt del: numToString.simps)
qed

lemma toFixed6_value:
  assumes "\<bar>r\<bar> < 10 ^ 21"
  shows "\<exists>ip fr. toFixed6 (Fin r) = (if r < 0 then ''-'' else []) @ ip @ ''.'' @ fr
           \<and> ip \<noteq> [] \<and> list_all isDigit ip \<and> list_all isDigit fr \<and> length fr = 6
           \<and> digitsToNat (ip @ fr) = nat \<lfloor>\<bar>r\<bar> * 10 ^ 6 + 1 / 2\<rfloor>"
proof -
  define m where "m = showNat (nat \<lfloor>\<bar>r\<bar> * 10 ^ 6 + 1 / 2\<rfloor>)"
  define m' where "m' = replicate (7 - length m) CHR ''0'' @ m"
  have len: "7 \<le> length m'" by (simp add: m'_def)
  have dig: "list_all isDigit m'"
    using showNat_digits [of "nat \<lfloor>\<bar>r\<bar> * 10 ^ 6 + 1 / 2\<rfloor>"]
    by (auto simp: m'_def m_def isDigit_zero list_all_iff)
  have fx: "toFixed6 (Fin r) =
      (if r < 0 then ''-'' else []) @ take (length m' - 6) m' @ ''.'' @ drop (length m' - 6) m'"
    using assms by (simp add: toFixed6_def Let_def m'_def m_def)
  have "take (length m' - 6) m' \<noteq> []" using len by auto
  moreover have "list_all isDigit (take (length m' - 6) m')"
    using dig by (auto simp: list_all_iff dest: in_set_takeD)
  moreover have "list_all isDigit (drop (length m' - 6) m')"
    using dig by (auto simp: list_all_iff dest: in_set_dropD)
  moreover have "length (drop (length m' - 6) m') = 6" using len by simp
  moreover have "digitsToNat (take (length m' - 6) m' @ drop (length m' - 6) m')
      = nat \<lfloor>\<bar>r\<bar> * 10 ^ 6 + 1 / 2\<rfloor>"
    by (simp only: append_take_drop_id) (simp add: m'_def m_def digitsToNat_zeros digitsToNat_showNat)
  ultimately show ?thesis using fx by blast
qed

lemma dropTrailingZeros_decomp:
  "xs = dropTrailingZeros xs @ replicate (length xs - length (dropTrailingZeros xs)) CHR ''0''"
proof -
  let ?P = "\<lambda>c. c = CHR ''0''"
  have tw: "takeWhile ?P (rev xs) = replicate (length (takeWhile ?P (rev xs))) CHR ''0''"
    by (rule replicate_length_same [symmetric]) (auto dest: set_takeWhileD)
  have "rev xs = takeWhile ?P (rev xs) @ dropWhile ?P (rev xs)" by simp
  then have "xs = rev (dropWhile ?P (rev xs)) @ rev (takeWhile ?P (rev xs))"
    by (metis rev_append rev_rev_ident)
  also have "rev (takeWhile ?P (rev xs)) = replicate (length (takeWhile ?P (rev xs))) CHR ''0''"
    using tw by (metis rev_replicate)
  finally have d: "xs = dropTrailingZeros xs @ replicate (length (takeWhile ?P (rev xs))) CHR ''0''"
    by (simp add: dropTrailingZeros_def)
  have "length xs = length (dropTrailingZeros xs) + length (takeWhile ?P (rev xs))"
    using arg_cong [OF d, of length] by simp
  then show ?thesis using d by simp
qed

lemma dropTrailingZeros_digits: "list_all isDigit xs \<Longrightarrow> list_all isDigit (dropTrailingZeros xs)"
  by (auto simp: dropTrailingZeros_def list_all_iff dest: set_dropWhileD)

lemma stripZerosKeepTwo_shape:
  "CHR ''.'' \<notin> set pre \<Longrightarrow>
     stripZerosKeepTwo (pre @ ''.'' @ fr) = pre @ ''.'' @ take 2 fr @ dropTrailingZeros (drop 2 fr)"
  by (simp add: stripZerosKeepTwo_def takeWhile_before_point Let_def)

text \<open>The shape of a formatted float: a sign, digits, a point and digits, with the value of
  the number rounded to six places.\<close>

lemma formatFloat_parts:
  assumes "\<bar>r\<bar> < 10 ^ 21"
  shows "\<exists>ip fr. formatFloat (Fin r) 0 = (if r < 0 then ''-'' else []) @ ip @ ''.'' @ fr
           \<and> ip \<noteq> [] \<and> list_all isDigit ip \<and> list_all isDigit fr
           \<and> (of_nat (digitsToNat (ip @ fr)) / 10 ^ length fr :: rat)
               = of_nat (nat \<lfloor>\<bar>r\<bar> * 10 ^ 6 + 1 / 2\<rfloor>) / 10 ^ 6"
proof -
  obtain ip fr where fx: "toFixed6 (Fin r) = (if r < 0 then ''-'' else []) @ ip @ ''.'' @ fr"
    and ip: "ip \<noteq> []" "list_all isDigit ip" and fr: "list_all isDigit fr" "length fr = 6"
    and val: "digitsToNat (ip @ fr) = nat \<lfloor>\<bar>r\<bar> * 10 ^ 6 + 1 / 2\<rfloor>"
    using toFixed6_value [OF assms] by blast
  show ?thesis
  proof (cases "CHR ''.'' \<in> set (numToString (Fin r))")
    case False
    then have "formatFloat (Fin r) 0 = toFixed6 (Fin r)"
      using formatFloat_code_eq_spec [OF assms] by (simp del: numToString.simps)
    then show ?thesis using fx ip fr val
      by (intro exI [of _ ip] exI [of _ fr]) simp
  next
    case True
    define kept where "kept = take 2 fr @ dropTrailingZeros (drop 2 fr)"
    define k where "k = length (drop 2 fr) - length (dropTrailingZeros (drop 2 fr))"
    have pre: "CHR ''.'' \<notin> set ((if r < 0 then ''-'' else []) @ ip)"
      using digits_no_point [OF ip(2)] by auto
    have "formatFloat (Fin r) 0 = stripZerosKeepTwo (toFixed6 (Fin r))"
      using True formatFloat_code_eq_spec [OF assms] by (simp del: numToString.simps)
    also have "\<dots> = ((if r < 0 then ''-'' else []) @ ip) @ ''.'' @ kept"
      unfolding kept_def using stripZerosKeepTwo_shape [OF pre, of fr] by (simp add: fx)
    finally have ff: "formatFloat (Fin r) 0 = (if r < 0 then ''-'' else []) @ ip @ ''.'' @ kept"
      by simp
    have "drop 2 fr = dropTrailingZeros (drop 2 fr) @ replicate k CHR ''0''"
      unfolding k_def by (rule dropTrailingZeros_decomp)
    then have "take 2 fr @ drop 2 fr = kept @ replicate k CHR ''0''"
      by (simp add: kept_def)
    then have dec: "fr = kept @ replicate k CHR ''0''" by simp
    have kd: "list_all isDigit kept"
      using fr(1) dropTrailingZeros_digits [of "drop 2 fr"]
      by (auto simp: kept_def list_all_iff dest: in_set_takeD in_set_dropD)
    have len: "length kept + k = 6" using arg_cong [OF dec, of length] fr(2) by simp
    have "digitsToNat (ip @ fr) = digitsToNat (ip @ kept) * 10 ^ k"
      using digitsToNat_trailing_zeros [of "ip @ kept" k] by (simp add: dec)
    then have e1: "(of_nat (digitsToNat (ip @ fr)) :: rat) = of_nat (digitsToNat (ip @ kept)) * 10 ^ k"
      by simp
    have e6: "(10 :: rat) ^ 6 = 10 ^ length kept * 10 ^ k"
      using len by (metis power_add)
    have "(of_nat (digitsToNat (ip @ fr)) / 10 ^ 6 :: rat)
        = (of_nat (digitsToNat (ip @ kept)) * 10 ^ k) / (10 ^ length kept * 10 ^ k)"
      by (simp only: e1 e6)
    also have "\<dots> = of_nat (digitsToNat (ip @ kept)) / 10 ^ length kept"
      by simp
    finally have "(of_nat (digitsToNat (ip @ kept)) / 10 ^ length kept :: rat)
        = of_nat (digitsToNat (ip @ fr)) / 10 ^ 6"
      by (rule sym)
    then show ?thesis using ff ip kd val
      by (intro exI [of _ ip] exI [of _ kept]) simp
  qed
qed

lemma floatField_cases:
  assumes "floatField n"
  obtains r where "n = Fin r" and "\<bar>r\<bar> < 10 ^ 21"
  using assms by (cases n) auto

lemma parseFloat_formatFloat:
  assumes "floatField n"
  shows "parseFloat (formatFloat n 0) = round6 n"
proof -
  obtain r where r: "n = Fin r" "\<bar>r\<bar> < 10 ^ 21" using assms by (rule floatField_cases)
  obtain ip fr where ff: "formatFloat (Fin r) 0 = (if r < 0 then ''-'' else []) @ ip @ ''.'' @ fr"
    and ip: "ip \<noteq> []" "list_all isDigit ip" and fr: "list_all isDigit fr"
    and val: "(of_nat (digitsToNat (ip @ fr)) / 10 ^ length fr :: rat)
               = of_nat (nat \<lfloor>\<bar>r\<bar> * 10 ^ 6 + 1 / 2\<rfloor>) / 10 ^ 6"
    using formatFloat_parts [OF r(2)] by blast
  let ?u = "ip @ CHR ''.'' # fr"
  have u: "parseUnsigned ?u = Some (of_nat (digitsToNat (ip @ fr)) / 10 ^ length fr)"
    using ip(2,1) fr by (rule parseUnsigned_decimal)
  have h: "?u \<noteq> []" "isDigit (hd ?u)" using ip by (cases ip; simp)+
  note pf = parseFloat_signed [OF u h]
  show ?thesis
  proof (cases "r < 0")
    case True
    then show ?thesis using pf(2) ff val r(1) by simp
  next
    case False
    then show ?thesis using pf(1) ff val r(1) by simp
  qed
qed

lemma round6_close: "round6 (Fin r) = Fin q \<Longrightarrow> \<bar>q - r\<bar> \<le> 1 / (2 * 10 ^ 6)"
proof -
  assume a: "round6 (Fin r) = Fin q"
  define n where "n = \<lfloor>\<bar>r\<bar> * 10 ^ 6 + 1 / 2\<rfloor>"
  have n0: "0 \<le> n" unfolding n_def by (simp add: le_floor_iff) 
  have lo: "of_int n \<le> \<bar>r\<bar> * 10 ^ 6 + 1 / 2" unfolding n_def by (rule of_int_floor_le)
  have hi: "\<bar>r\<bar> * 10 ^ 6 + 1 / 2 < of_int n + 1" unfolding n_def by linarith
  have q: "q = (if r < 0 then - 1 else 1) * of_int n / 10 ^ 6"
    using a n0 by (simp add: n_def)
  have "\<bar>of_int n / 10 ^ 6 - \<bar>r\<bar>\<bar> \<le> 1 / (2 * 10 ^ 6)"
  proof -
    have "\<bar>of_int n - \<bar>r\<bar> * 10 ^ 6\<bar> \<le> 1 / 2" using lo hi by linarith
    then have "\<bar>of_int n - \<bar>r\<bar> * 10 ^ 6\<bar> / 10 ^ 6 \<le> (1 / 2) / 10 ^ 6"
      by (rule divide_right_mono) simp
    moreover have "of_int n / 10 ^ 6 - \<bar>r\<bar> = (of_int n - \<bar>r\<bar> * 10 ^ 6) / 10 ^ 6"
      by (simp add: field_simps)
    then have "\<bar>of_int n - \<bar>r\<bar> * 10 ^ 6\<bar> / 10 ^ 6 = \<bar>of_int n / 10 ^ 6 - \<bar>r\<bar>\<bar>"
      by (simp only: abs_divide) simp
    ultimately show ?thesis by simp
  qed
  then show ?thesis
    unfolding q by (cases "r < 0") (simp_all add: abs_if split: if_splits)
qed

subsection \<open>White space, tokens and words\<close>

lemma isSpace_space: "isSpace CHR '' ''"
  by (simp add: isSpace_def)

lemma isSpace_newline: "isSpace newline"
  by (simp add: isSpace_def newline_def)

lemma not_isSpace_dquote: "\<not> isSpace dquote"
  by (simp add: isSpace_def dquote_def)

lemma space_not_dquote: "CHR '' '' \<noteq> dquote"
  by (simp add: dquote_def)

lemma dropWhile_spaces: "list_all isSpace w \<Longrightarrow> dropWhile isSpace (w @ s) = dropWhile isSpace s"
  by (induction w) auto

lemma trim_spaces_left: "list_all isSpace w \<Longrightarrow> trim (w @ s) = trim s"
  by (simp add: trim_def dropWhile_spaces)

lemma trim_spaces_right: "list_all isSpace w \<Longrightarrow> trim (s @ w) = trim s"
proof (cases "list_all isSpace s")
  case True
  assume "list_all isSpace w"
  with True have "dropWhile isSpace (s @ w) = []" "dropWhile isSpace s = []"
    by (simp_all add: dropWhile_eq_Nil_conv list_all_iff)
  then show ?thesis by (simp only: trim_def)
next
  case False
  assume w: "list_all isSpace w"
  from False have "dropWhile isSpace (s @ w) = dropWhile isSpace s @ w"
    by (auto simp: list_all_iff dropWhile_append1)
  moreover have "dropWhile isSpace (rev w @ rev (dropWhile isSpace s))
      = dropWhile isSpace (rev (dropWhile isSpace s))"
    using w by (intro dropWhile_spaces) (simp add: list_all_iff)
  ultimately show ?thesis by (simp add: trim_def)
qed

lemma trim_core:
  assumes "core \<noteq> []" and "\<not> isSpace (hd core)" and "\<not> isSpace (last core)"
  shows "trim core = core"
proof -
  have a: "dropWhile isSpace core = core" using assms(1,2) by (cases core) auto
  have "dropWhile isSpace (rev core) = rev core"
    using assms(1,3) by (cases "rev core") (auto simp: last_rev [symmetric] hd_rev)
  then show ?thesis by (simp add: trim_def a)
qed

lemma trim_unique:
  assumes "list_all isSpace w1" and "list_all isSpace w2"
    and "core \<noteq> []" and "\<not> isSpace (hd core)" and "\<not> isSpace (last core)"
  shows "trim (w1 @ core @ w2) = core"
proof -
  have "trim (w1 @ core @ w2) = trim (core @ w2)" using assms(1) by (rule trim_spaces_left)
  also have "\<dots> = trim core" using assms(2) by (rule trim_spaces_right)
  also have "\<dots> = core" using assms(3-5) by (rule trim_core)
  finally show ?thesis .
qed

lemma trim_all_spaces: "list_all isSpace w \<Longrightarrow> trim w = []"
  using trim_spaces_left [of w "[]"] by (simp add: trim_def)

lemma trim_decomp:
  "\<exists>w1 w2. s = w1 @ trim s @ w2 \<and> list_all isSpace w1 \<and> list_all isSpace w2"
proof -
  let ?d = "dropWhile isSpace s"
  have s: "s = takeWhile isSpace s @ ?d" by simp
  have "rev ?d = takeWhile isSpace (rev ?d) @ dropWhile isSpace (rev ?d)" by simp
  then have "?d = rev (dropWhile isSpace (rev ?d)) @ rev (takeWhile isSpace (rev ?d))"
    by (metis rev_append rev_rev_ident)
  then have d: "?d = trim s @ rev (takeWhile isSpace (rev ?d))" by (simp add: trim_def)
  have "s = takeWhile isSpace s @ trim s @ rev (takeWhile isSpace (rev ?d))"
    using s d by metis
  moreover have "list_all isSpace (takeWhile isSpace s)"
    by (auto simp: list_all_iff dest: set_takeWhileD)
  moreover have "list_all isSpace (rev (takeWhile isSpace (rev ?d)))"
    by (auto simp: list_all_iff dest: set_takeWhileD)
  ultimately show ?thesis by blast
qed

lemma plainToken_trim: "plainToken t \<Longrightarrow> trim t = t"
proof -
  assume p: "plainToken t"
  then have "t \<noteq> []" "\<not> isSpace (hd t)" "\<not> isSpace (last t)"
    by (auto simp: plainToken_def)
  then show ?thesis by (rule trim_core)
qed

lemma quoted_trim: "trim (dquote # s @ [dquote]) = dquote # s @ [dquote]"
  by (rule trim_core) (simp_all add: not_isSpace_dquote)

text \<open>The scan of a value line.\<close>

lemma pushToken_spaces_left: "list_all isSpace w \<Longrightarrow> pushToken (w @ cur) toks = pushToken cur toks"
  by (simp add: pushToken_def trim_spaces_left)

lemma pushToken_spaces_right: "list_all isSpace w \<Longrightarrow> pushToken (cur @ w) toks = pushToken cur toks"
  by (simp add: pushToken_def trim_spaces_right)

lemma pushToken_Nil: "pushToken [] toks = toks"
  by (simp add: pushToken_def trim_def)

lemma scan_ws_cur:
  "list_all isSpace w \<Longrightarrow> scanTokens cs (w @ cur) q toks = scanTokens cs cur q toks"
proof (induction cs arbitrary: cur q toks)
  case Nil
  then show ?case by (simp add: pushToken_spaces_left)
next
  case (Cons c cs)
  note ih = Cons.IH [OF Cons.prems]
  show ?case
    using Cons.prems ih [of "cur @ [c]"] ih [of "[]"]
    by (cases "c = dquote") (simp_all add: pushToken_spaces_left)
qed

lemma scan_ws_prefix:
  "list_all isSpace w \<Longrightarrow> list_all isSpace cur \<Longrightarrow>
     scanTokens (w @ cs) cur False toks = scanTokens cs [] False toks"
proof (induction w arbitrary: cur)
  case Nil
  then show ?case using scan_ws_cur [of cur cs "[]" False toks] by simp
next
  case (Cons c w)
  have c: "isSpace c" "c \<noteq> dquote" using Cons.prems(1) not_isSpace_dquote by auto
  have w: "list_all isSpace w" using Cons.prems(1) by simp
  have p: "pushToken cur toks = toks"
    using pushToken_spaces_left [OF Cons.prems(2), of "[]" toks] by (simp add: pushToken_Nil)
  show ?case
  proof (cases "c = CHR '' ''")
    case True
    then show ?thesis using c p Cons.IH [OF w, of "[]"] by simp
  next
    case False
    have "list_all isSpace (cur @ [c])" using Cons.prems(2) c by simp
    then show ?thesis using c False Cons.IH [OF w, of "cur @ [c]"] by simp
  qed
qed

lemma scan_ws_only:
  "list_all isSpace w \<Longrightarrow> scanTokens w cur q toks = pushToken cur toks"
proof (induction w arbitrary: cur toks q)
  case Nil
  show ?case by simp
next
  case (Cons c w)
  have c: "isSpace c" "c \<noteq> dquote" using Cons.prems(1) not_isSpace_dquote by auto
  have w: "list_all isSpace w" using Cons.prems(1) by simp
  have a: "scanTokens w (cur @ [c]) q toks = pushToken cur toks"
    using Cons.IH [OF w, of "cur @ [c]" q toks] pushToken_spaces_right [of "[c]" cur toks] c
    by simp
  have b: "scanTokens w [] False (pushToken cur toks) = pushToken cur toks"
    using Cons.IH [OF w, of "[]" False "pushToken cur toks"] by (simp add: pushToken_Nil)
  show ?case using c a b by simp
qed

lemma scan_ws_suffix:
  "list_all isSpace w \<Longrightarrow> scanTokens (s @ w) cur q toks = scanTokens s cur q toks"
proof (induction s arbitrary: cur q toks)
  case Nil
  then show ?case by (simp add: scan_ws_only)
next
  case (Cons c s)
  then show ?case by simp
qed

lemma tokenize_scan: "tokenize s = scanTokens s [] False []"
proof -
  obtain w1 w2 where s: "s = w1 @ trim s @ w2" and w: "list_all isSpace w1" "list_all isSpace w2"
    using trim_decomp by blast
  have "scanTokens (w1 @ trim s @ w2) [] False [] = scanTokens (trim s @ w2) [] False []"
    using w(1) by (intro scan_ws_prefix) simp_all
  also have "\<dots> = scanTokens (trim s) [] False []" using w(2) by (rule scan_ws_suffix)
  finally show ?thesis using s by (simp add: tokenize_def)
qed

lemma scan_body:
  "dquote \<notin> set t \<Longrightarrow> CHR '' '' \<notin> set t \<or> q \<Longrightarrow>
     scanTokens (t @ cs) cur q toks = scanTokens cs (cur @ t) q toks"
proof (induction t arbitrary: cur)
  case Nil
  show ?case by simp
next
  case (Cons c t)
  then show ?case by auto
qed

lemma scan_Nil: "scanTokens [] [] q toks = toks"
  by (simp add: pushToken_Nil)

lemma scan_space: "scanTokens (CHR '' '' # cs) [] False toks = scanTokens cs [] False toks"
  by (simp add: pushToken_Nil space_not_dquote)

lemma scan_spaces:
  "scanTokens (replicate n CHR '' '' @ cs) [] False toks = scanTokens cs [] False toks"
  by (rule scan_ws_prefix) (simp_all add: list_all_iff isSpace_space)

lemma scan_plain:
  assumes "plainToken t"
  shows "scanTokens (t @ cs) [] False toks = scanTokens cs t False toks"
proof -
  have "dquote \<notin> set t" "CHR '' '' \<notin> set t"
    using assms isSpace_space by (auto simp: plainToken_def)
  then show ?thesis using scan_body [of t False cs "[]" toks] by simp
qed

lemma scan_quoted:
  assumes "dquote \<notin> set s"
  shows "scanTokens (dquote # s @ dquote # cs) [] False toks
           = scanTokens cs (dquote # s @ [dquote]) False toks"
  using scan_body [OF assms, of True "dquote # cs" "[dquote]" toks] by simp

lemma tokenDone_plain: "plainToken t \<Longrightarrow> tokenDone t"
  by (simp add: tokenDone_def plainToken_trim) (simp add: plainToken_def)

lemma tokenDone_quoted: "tokenDone (dquote # s @ [dquote])"
  by (simp add: tokenDone_def quoted_trim)

lemma scan_push_end: "tokenDone t \<Longrightarrow> scanTokens [] t False toks = toks @ [t]"
  by (simp add: tokenDone_def pushToken_def)

lemma scan_push_space:
  "tokenDone t \<Longrightarrow> scanTokens (CHR '' '' # cs) t False toks = scanTokens cs [] False (toks @ [t])"
  by (simp add: tokenDone_def pushToken_def space_not_dquote)

lemma scan_push_spaces:
  "tokenDone t \<Longrightarrow>
     scanTokens (replicate n CHR '' '' @ CHR '' '' # cs) t False toks
       = scanTokens cs [] False (toks @ [t])"
proof (cases n)
  case 0
  assume "tokenDone t"
  then show ?thesis using 0 by (simp add: scan_push_space del: scanTokens.simps)
next
  case (Suc m)
  assume "tokenDone t"
  then have "scanTokens (replicate n CHR '' '' @ CHR '' '' # cs) t False toks
      = scanTokens (replicate m CHR '' '' @ CHR '' '' # cs) [] False (toks @ [t])"
    using Suc by (simp add: scan_push_space del: scanTokens.simps)
  then show ?thesis by (simp add: scan_spaces scan_space del: scanTokens.simps)
qed

lemma scan_push_spaces_end:
  "tokenDone t \<Longrightarrow> scanTokens (replicate n CHR '' '') t False toks = toks @ [t]"
proof -
  assume t: "tokenDone t"
  have "scanTokens ([] @ replicate n CHR '' '') t False toks = scanTokens [] t False toks"
    by (rule scan_ws_suffix) (simp add: list_all_iff isSpace_space)
  then show ?thesis using t by (simp add: scan_push_end del: scanTokens.simps)
qed

lemmas scan_rules = scan_Nil scan_space scan_spaces scan_plain scan_quoted scan_push_end
  scan_push_space scan_push_spaces scan_push_spaces_end tokenDone_plain tokenDone_quoted

text \<open>Splitting at a separator and at white space.\<close>

lemma splitOn_nonempty: "splitOn c s \<noteq> []"
  by (induction s) (auto split: list.splits)

lemma splitOn_none: "c \<notin> set s \<Longrightarrow> splitOn c s = [s]"
  by (induction s) auto

lemma splitOn_append: "splitOn c (a @ c # b) = splitOn c a @ splitOn c b"
proof (induction a)
  case Nil
  show ?case by (simp add: splitOn_none)
next
  case (Cons x a)
  obtain w ws where w: "splitOn c a = w # ws"
    using splitOn_nonempty [of c a] by (cases "splitOn c a") auto
  show ?case using Cons w by simp
qed

lemma splitOn_first: "c \<notin> set a \<Longrightarrow> splitOn c (a @ c # b) = a # splitOn c b"
  by (simp add: splitOn_append splitOn_none)

lemma splitOn_join:
  "xs \<noteq> [] \<Longrightarrow> splitOn c (join [c] xs) = concat (map (splitOn c) xs)"
proof (induction xs)
  case Nil
  then show ?case by simp
next
  case (Cons x xs)
  show ?case
  proof (cases xs)
    case Nil
    then show ?thesis by simp
  next
    case (Cons y ys)
    then show ?thesis using Cons.IH by (simp add: splitOn_append)
  qed
qed

lemma splitWs_space:
  "isSpace x \<Longrightarrow> splitWs (x # cs) = [] # splitWs (dropWhile isSpace cs)"
proof (induction cs arbitrary: x)
  case Nil
  then show ?case by simp
next
  case (Cons y cs)
  then show ?case by simp
qed

lemma splitWs_nonempty: "splitWs s \<noteq> []"
  by (induction s rule: splitWs.induct) (auto split: list.splits)

lemma splitWs_word_space:
  "\<forall>c \<in> set w. \<not> isSpace c \<Longrightarrow> isSpace x \<Longrightarrow>
     splitWs (w @ x # cs) = w # splitWs (dropWhile isSpace cs)"
proof (induction w)
  case Nil
  then show ?case by (simp add: splitWs_space del: splitWs.simps)
next
  case (Cons c w)
  then show ?case by simp
qed

lemma splitWs_word: "\<forall>c \<in> set w. \<not> isSpace c \<Longrightarrow> splitWs w = [w]"
  by (induction w) auto

lemma dropWhile_space_Cons: "dropWhile isSpace (CHR '' '' # cs) = dropWhile isSpace cs"
  by (simp add: isSpace_space)

lemma dropWhile_space_replicate:
  "dropWhile isSpace (replicate n CHR '' '' @ cs) = dropWhile isSpace cs"
  by (rule dropWhile_spaces) (simp add: list_all_iff isSpace_space)

lemma dropWhile_space_word:
  "w \<noteq> [] \<Longrightarrow> \<not> isSpace (hd w) \<Longrightarrow> dropWhile isSpace (w @ cs) = w @ cs"
  by (cases w) auto

subsection \<open>The rendered fields\<close>

lemma isDigit_plain: "isDigit c \<Longrightarrow> \<not> isSpace c \<and> c \<noteq> dquote"
  by (auto simp: isDigit_def isSpace_def dquote_def)

lemma plainToken_append: "plainToken a \<Longrightarrow> plainToken b \<Longrightarrow> plainToken (a @ b)"
  by (auto simp: plainToken_def)

lemma plainToken_digits: "list_all isDigit ds \<Longrightarrow> ds \<noteq> [] \<Longrightarrow> plainToken ds"
  using isDigit_plain by (auto simp: plainToken_def list_all_iff)

lemma plainToken_showNat: "plainToken (showNat n)"
  using showNat_digits showNat_nonempty by (rule plainToken_digits)

lemma plainToken_minus: "plainToken ''-''"
  by (simp add: plainToken_def isSpace_def dquote_def)

lemma plainToken_point: "plainToken ''.''"
  by (simp add: plainToken_def isSpace_def dquote_def)

lemma plainToken_numToString: "intField n \<Longrightarrow> plainToken (numToString n)"
  using plainToken_append [OF plainToken_minus plainToken_showNat]
  by (simp add: intField_render(1) decimalOfInt_def plainToken_showNat del: numToString.simps)

lemma plainToken_formatFloat:
  assumes "floatField n"
  shows "plainToken (formatFloat n 0)"
proof -
  obtain r where r: "n = Fin r" "\<bar>r\<bar> < 10 ^ 21" using assms by (rule floatField_cases)
  obtain ip fr where ff: "formatFloat (Fin r) 0 = (if r < 0 then ''-'' else []) @ ip @ ''.'' @ fr"
    and ip: "ip \<noteq> []" "list_all isDigit ip" and fr: "list_all isDigit fr"
    using formatFloat_parts [OF r(2)] by blast
  have a: "plainToken ip" using ip(2,1) by (rule plainToken_digits)
  have b: "plainToken (ip @ ''.'' @ fr)"
    using a fr isDigit_plain by (auto simp: plainToken_def list_all_iff isSpace_def dquote_def)
  show ?thesis
    using b plainToken_append [OF plainToken_minus b] by (simp add: r(1) ff)
qed

lemma plainToken_nonempty: "plainToken t \<Longrightarrow> t \<noteq> []"
  by (simp add: plainToken_def)

lemma plainToken_no_space: "plainToken t \<Longrightarrow> CHR '' '' \<notin> set t"
  using isSpace_space by (auto simp: plainToken_def)

lemma plainToken_no_newline: "plainToken t \<Longrightarrow> newline \<notin> set t"
  using isSpace_newline by (auto simp: plainToken_def)

lemma plainToken_word: "plainToken t \<Longrightarrow> \<forall>c \<in> set t. \<not> isSpace c"
  by (simp add: plainToken_def)

lemma plainToken_hd: "plainToken t \<Longrightarrow> \<not> isSpace (hd t)"
  by (cases t) (auto simp: plainToken_def)

lemma intField_of_nat: "n < 2 ^ 32 \<Longrightarrow> intField (Fin (of_nat n))"
proof -
  assume "n < 2 ^ 32"
  then have "n < 10 ^ 21" by simp
  then have "(of_nat n :: rat) < 10 ^ 21"
    by (metis of_nat_less_iff of_nat_numeral of_nat_power)
  then show ?thesis by simp
qed

text \<open>The formatters, as the field and its padding.\<close>

lemma formatString_pad:
  "formatString s w = dquote # s @ dquote # replicate (w - length (dquote # s @ [dquote])) CHR '' ''"
  by (simp add: formatString_def padEnd_def Let_def)

lemma formatGuid_pad: "formatGuid g w = g @ replicate (w - length g) CHR '' ''"
  by (simp add: formatGuid_def padEnd_def)

lemma formatTripleFloat_proj:
  "formatTripleFloat t =
     formatFloat (fst t) 0 @ CHR '' '' # formatFloat (fst (snd t)) 0
       @ CHR '' '' # formatFloat (snd (snd t)) 0"
  by (cases t) (simp add: formatTripleFloat_def)

lemma formatSixFloat_proj:
  "formatSixFloat t =
     formatFloat (fst t) 0 @ CHR '' '' # formatFloat (fst (snd t)) 0
       @ CHR '' '' # formatFloat (fst (snd (snd t))) 0
       @ CHR '' '' # formatFloat (fst (snd (snd (snd t)))) 0
       @ CHR '' '' # formatFloat (fst (snd (snd (snd (snd t))))) 0
       @ CHR '' '' # formatFloat (snd (snd (snd (snd (snd t))))) 0"
  by (cases t) (simp add: formatSixFloat_def)

lemma formatQuadInt_proj:
  "formatQuadInt t =
     numToString (mathFloor (fst t)) @ CHR '' '' # numToString (mathFloor (fst (snd t)))
       @ CHR '' '' # numToString (mathFloor (fst (snd (snd t))))
       @ CHR '' '' # numToString (mathFloor (snd (snd (snd t))))"
  by (cases t) (simp add: formatQuadInt_def)

lemma float3_proj:
  "float3 t = (floatField (fst t) \<and> floatField (fst (snd t)) \<and> floatField (snd (snd t)))"
  by (cases t) (simp add: float3_def)

lemma float6_proj:
  "float6 t = (floatField (fst t) \<and> floatField (fst (snd t)) \<and> floatField (fst (snd (snd t)))
     \<and> floatField (fst (snd (snd (snd t)))) \<and> floatField (fst (snd (snd (snd (snd t)))))
     \<and> floatField (snd (snd (snd (snd (snd t))))))"
  by (cases t) (simp add: float6_def)

lemma int4_proj:
  "int4 t = (intField (fst t) \<and> intField (fst (snd t)) \<and> intField (fst (snd (snd t)))
     \<and> intField (snd (snd (snd t))))"
  by (cases t) (simp add: int4_def)

lemmas format_pad = formatInt_pad formatFloat_pad [where w = "numeral k" for k]
  formatString_pad formatGuid_pad padEnd_def formatTripleFloat_proj formatSixFloat_proj
  formatQuadInt_proj

lemmas field_facts = plainToken_numToString plainToken_formatFloat intField_render(2)
  float3_proj float6_proj int4_proj intField_of_nat

text \<open>The tokens of the value line of a shot.\<close>

lemma shot_tokens:
  "encodableShot sh \<Longrightarrow>
     tokenize (shotValueLine sh) =
       [dquote # sh_name sh @ [dquote], numToString (sh_nextShot sh),
        numToString (sh_skipShot sh), formatFloat (sh_maxTime sh) 0, formatFloat (sh_time sh) 0]"
  by (simp add: tokenize_scan shotValueLine_def format_pad scan_rules field_facts
      encodableShot_def quotable_def del: scanTokens.simps numToString.simps)

subsection \<open>The schema line\<close>

lemma takeWhile_notin:
  "c \<notin> set xs \<Longrightarrow> takeWhile (\<lambda>x. x \<noteq> c) (xs @ ys) = xs @ takeWhile (\<lambda>x. x \<noteq> c) ys"
  by (induction xs) auto

lemma dropWhile_notin:
  "c \<notin> set xs \<Longrightarrow> dropWhile (\<lambda>x. x \<noteq> c) (xs @ ys) = dropWhile (\<lambda>x. x \<noteq> c) ys"
  by (induction xs) auto

lemma matchBraces_skip:
  "CHR ''{'' \<notin> set xs \<Longrightarrow> matchBraces (xs @ ys) = matchBraces ys"
  by (induction xs) auto

lemma trimRight_Nil: "trimRight [] = []"
  by (simp add: trimRight_def)

lemma trimRight_Cons:
  "trimRight (c # s) = (if isSpace c \<and> trimRight s = [] then [] else c # trimRight s)"
proof (cases "list_all isSpace (rev s)")
  case True
  then have "dropWhile isSpace (rev s) = []"
    by (simp add: dropWhile_eq_Nil_conv list_all_iff)
  moreover have "dropWhile isSpace (rev s @ [c]) = dropWhile isSpace [c]"
    using True by (rule dropWhile_spaces)
  ultimately show ?thesis by (simp add: trimRight_def)
next
  case False
  then have "dropWhile isSpace (rev s @ [c]) = dropWhile isSpace (rev s) @ [c]"
    by (auto simp: list_all_iff dropWhile_append1)
  moreover have "dropWhile isSpace (rev s) \<noteq> []"
    using False by (simp add: dropWhile_eq_Nil_conv list_all_iff)
  ultimately show ?thesis by (simp add: trimRight_def)
qed

lemma trimRight_append:
  "trimRight (w @ s) = (if trimRight s = [] then trimRight w else w @ trimRight s)"
proof (induction w)
  case Nil
  show ?case by (simp add: trimRight_Nil)
next
  case (Cons c w)
  then show ?case by (simp add: trimRight_Cons)
qed

lemma trimRight_Cons_word: "\<not> isSpace c \<Longrightarrow> trimRight (c # s) = c # trimRight s"
  by (simp add: trimRight_Cons)

lemma trimRight_Cons_space:
  "isSpace c \<Longrightarrow> trimRight (c # s) = (case trimRight s of [] \<Rightarrow> [] | x # xs \<Rightarrow> c # x # xs)"
  by (simp add: trimRight_Cons split: list.splits)

lemma trimRight_append_word:
  "\<forall>c \<in> set w. \<not> isSpace c \<Longrightarrow> trimRight (w @ s) = w @ trimRight s"
  by (induction w) (auto simp: trimRight_Cons)

lemma trimRight_word: "\<forall>c \<in> set w. \<not> isSpace c \<Longrightarrow> trimRight w = w"
  by (induction w) (auto simp: trimRight_Cons trimRight_Nil)

lemma trim_Cons:
  "trim (c # s) = (if isSpace c then trim s else c # trimRight s)"
proof (cases "isSpace c")
  case True
  then show ?thesis using trim_spaces_left [of "[c]" s] by simp
next
  case False
  then show ?thesis
    using trimRight_Cons [of c s] by (simp add: trim_def trimRight_def)
qed

lemma trim_append_word:
  "w \<noteq> [] \<Longrightarrow> \<not> isSpace (hd w) \<Longrightarrow> trim (w @ s) = trimRight (w @ s)"
  by (cases w) (simp_all add: trim_Cons trimRight_Cons)

lemma splitWs_append_word:
  "\<forall>c \<in> set w. \<not> isSpace c \<Longrightarrow>
     splitWs (w @ cs) = (w @ hd (splitWs cs)) # tl (splitWs cs)"
proof (induction w)
  case Nil
  show ?case using splitWs_nonempty [of cs] by simp
next
  case (Cons c w)
  then show ?case by simp
qed

lemma splitOn_append_word:
  "c \<notin> set w \<Longrightarrow> splitOn c (w @ cs) = (w @ hd (splitOn c cs)) # tl (splitOn c cs)"
proof (induction w)
  case Nil
  show ?case using splitOn_nonempty [of c cs] by simp
next
  case (Cons x w)
  then show ?case by auto
qed

lemma showNat_notin: "\<not> isDigit c \<Longrightarrow> c \<notin> set (showNat n)"
  using showNat_digits [of n] by (auto simp: list_all_iff)

lemma showNat_word: "\<forall>c \<in> set (showNat n). \<not> isSpace c"
  using plainToken_showNat by (simp add: plainToken_def)

lemmas isSpace_lit = isSpace_def [of "Char b0 b1 b2 b3 b4 b5 b6 b7"] for b0 b1 b2 b3 b4 b5 b6 b7

lemmas isDigit_lit = isDigit_def [of "Char b0 b1 b2 b3 b4 b5 b6 b7"] for b0 b1 b2 b3 b4 b5 b6 b7

lemmas schema_eval = matchBraces.simps takeWhile_notin dropWhile_notin showNat_notin showNat_word
  showNat_nonempty trim_Cons trimRight_Cons_word trimRight_Cons_space trimRight_Nil
  trimRight_append_word
  splitWs_append_word splitOn_append_word isSpace_lit isDigit_lit bslash_def
  fieldNameOf_def fieldTypeOf_def

lemma index_bound: "i < 2 ^ 32 \<Longrightarrow> (i :: nat) < 10 ^ 21"
  by simp

lemma parseValues_bound:
  "schemaFields h = Some fs \<Longrightarrow>
     parseValues (Some h) (Some v) = Inr (boundValues fs (tokenize v))"
  by (auto simp: schemaFields_def parseValues_def boundValues_def split: option.splits)

lemma orElse_Some: "t \<noteq> [] \<Longrightarrow> orElse (Some t) d = t"
  by (simp add: orElse_def)

lemma parseString_quoted: "parseString (dquote # s @ [dquote]) = s"
  by (simp add: parseString_def)

lemma parseFloatVal_formatFloat: "floatField n \<Longrightarrow> parseFloatVal (formatFloat n 0) = round6 n"
  by (cases n) (simp_all add: parseFloatVal_def parseFloat_formatFloat)

lemma numToString_nonempty: "intField n \<Longrightarrow> numToString n \<noteq> []"
  using plainToken_numToString plainToken_nonempty by blast

lemma formatFloat_nonempty: "floatField n \<Longrightarrow> formatFloat n 0 \<noteq> []"
  using plainToken_formatFloat plainToken_nonempty by blast

lemmas bind_eval = boundValues_def bindFields.simps fieldNameOf_def fieldTypeOf_def
  splitOn_append_word showNat_notin isDigit_lit bslash_def tokenOr0_def

lemmas decode_eval = orElse_Some parseString_quoted parseFloatVal_formatFloat
  intField_render(3) numToString_nonempty formatFloat_nonempty plainToken_nonempty

lemma shot_fields:
  "i < 2 ^ 32 \<Longrightarrow>
   schemaFields (shotSchemaLine i) =
     Some (map (\<lambda>f. ''Shot'' @ showNat i @ [bslash] @ f)
       [''Name:s'', ''NextShot:d'', ''SkipShot:d'', ''MaxTime:f'', ''Time:f''])"
  by (simp add: schemaFields_def shotSchemaLine_def numToString_of_nat index_bound schema_eval
      del: numToString.simps)

lemma round3_proj: "round3 t = (round6 (fst t), round6 (fst (snd t)), round6 (snd (snd t)))"
  by (cases t) (simp add: round3_def)

lemma orZero_round6: "floatField n \<Longrightarrow> orZero (round6 n) = round6 n"
  by (cases n) simp_all

lemma orZero_intField: "intField n \<Longrightarrow> orZero n = n"
  by (cases n) simp_all

lemma parseFloat_token: "floatField n \<Longrightarrow> orZero (parseFloat (formatFloat n 0)) = round6 n"
  by (simp add: parseFloat_formatFloat orZero_round6)

lemma parseInt_token: "intField n \<Longrightarrow> orZero (mathFloor (parseFloat (numToString n))) = n"
  using intField_render(3) [of n] by (simp add: parseIntVal_def del: numToString.simps)

lemma parseTriple_tokens:
  assumes "float3 t"
  shows "parseTriple (formatFloat (fst t) 0 @ CHR '' '' # formatFloat (fst (snd t)) 0
           @ CHR '' '' # formatFloat (snd (snd t)) 0) = round3 t"
proof -
  have f: "floatField (fst t)" "floatField (fst (snd t))" "floatField (snd (snd t))"
    using assms by (simp_all add: float3_proj)
  note p = f [THEN plainToken_formatFloat, THEN plainToken_no_space]
  show ?thesis
    using f by (simp add: parseTriple_def splitOn_first p splitOn_none nthOrZero_def
        parseFloat_token orZero_round6 round3_proj)
qed

lemma parseSix_tokens:
  assumes "float6 t"
  shows "parseSix (formatFloat (fst t) 0 @ CHR '' '' # formatFloat (fst (snd t)) 0
           @ CHR '' '' # formatFloat (fst (snd (snd t))) 0
           @ CHR '' '' # formatFloat (fst (snd (snd (snd t)))) 0
           @ CHR '' '' # formatFloat (fst (snd (snd (snd (snd t))))) 0
           @ CHR '' '' # formatFloat (snd (snd (snd (snd (snd t))))) 0) = round6s t"
proof -
  have f: "floatField (fst t)" "floatField (fst (snd t))" "floatField (fst (snd (snd t)))"
    "floatField (fst (snd (snd (snd t))))" "floatField (fst (snd (snd (snd (snd t)))))"
    "floatField (snd (snd (snd (snd (snd t)))))"
    using assms by (simp_all add: float6_proj)
  note p = f [THEN plainToken_formatFloat, THEN plainToken_no_space]
  have r: "round6s t = (round6 (fst t), round6 (fst (snd t)), round6 (fst (snd (snd t))),
      round6 (fst (snd (snd (snd t)))), round6 (fst (snd (snd (snd (snd t))))),
      round6 (snd (snd (snd (snd (snd t))))))"
    by (cases t) (simp add: round6s_def)
  show ?thesis
    using f by (simp add: parseSix_def splitOn_first p splitOn_none nthOrZero_def
        parseFloat_token orZero_round6 r)
qed

lemma parseQuad_tokens:
  assumes "int4 t"
  shows "parseQuad (numToString (fst t) @ CHR '' '' # numToString (fst (snd t))
           @ CHR '' '' # numToString (fst (snd (snd t)))
           @ CHR '' '' # numToString (snd (snd (snd t)))) = t"
proof -
  have f: "intField (fst t)" "intField (fst (snd t))" "intField (fst (snd (snd t)))"
    "intField (snd (snd (snd t)))"
    using assms by (simp_all add: int4_proj)
  note p = f [THEN plainToken_numToString, THEN plainToken_no_space]
  show ?thesis
    using f by (simp add: parseQuad_def splitOn_first p splitOn_none nthOrZero_def
        parseInt_token orZero_intField del: numToString.simps)
qed

lemmas line_eval = tokenize_scan format_pad scan_rules field_facts quotable_def
  numToString_of_nat index_bound bind_eval decode_eval
  parseTriple_tokens parseSix_tokens parseQuad_tokens

lemmas values_eval = parseValues_def schema_eval line_eval plainToken_showNat showNat_nonempty Let_def

lemma shot_decode:
  assumes "encodableShot sh" and "i < 2 ^ 32"
  shows "case parseValues (Some (shotSchemaLine i)) (Some (shotValueLine sh)) of
           Inl e \<Rightarrow> False
         | Inr v \<Rightarrow> decodeShot u (Fin (of_nat i)) v = decodedShot u i sh"
  using assms
  by (simp add: shotSchemaLine_def shotValueLine_def decodeShot_def decodedShot_def
      encodableShot_def values_eval del: numToString.simps scanTokens.simps)

lemma header_decode:
  assumes "encodable c"
  shows "case parseValues (Some cinemaSchemaLine) (Some (cinemaValueLine c)) of
           Inl e \<Rightarrow> False
         | Inr v \<Rightarrow>
             decodeCinemaHeader v c0 =
               c0\<lparr> guid := guid c, objName := objName c, duration := round6 (duration c),
                   properties := decodedProperties (properties c) \<rparr>"
  using assms
  by (simp add: cinemaSchemaLine_def cinemaValueLine_def decodeCinemaHeader_def
      decodedProperties_def encodable_def encodableProperties_def values_eval
      del: numToString.simps scanTokens.simps)

lemma syncPoint_decode:
  assumes "encodableSyncPoint sp" and "i < 2 ^ 32"
  shows "case parseValues (Some (syncPointSchemaLine i)) (Some (syncPointValueLine sp)) of
           Inl e \<Rightarrow> False
         | Inr v \<Rightarrow> decodeSyncPoint u (Fin (of_nat i)) v = decodedSyncPoint u i sp"
  using assms
  by (simp add: syncPointSchemaLine_def syncPointValueLine_def decodeSyncPoint_def
      decodedSyncPoint_def encodableSyncPoint_def values_eval
      del: numToString.simps scanTokens.simps)

lemma cameraPath_decode:
  assumes "encodableCameraPath cp"
  shows "case parseValues (Some cameraPathSchemaLine) (Some (cameraPathValueLine cp)) of
           Inl e \<Rightarrow> False
         | Inr v \<Rightarrow> decodeCameraPath u v = (decodedCameraPath u cp)\<lparr> cp_keyframes := [] \<rparr>"
  using assms
  by (simp add: cameraPathSchemaLine_def cameraPathValueLine_def decodeCameraPath_def
      decodedCameraPath_def encodableCameraPath_def values_eval
      del: numToString.simps scanTokens.simps)

lemmas action_eval = decodeAction_def decodedAction_def decodedBase_def encodableAction_def
  encodableBase_def ACTION_TYPE_REVERSE_def values_eval

lemma camera_decode:
  assumes "encodableAction (CameraAction b v)" and "i < 2 ^ 32"
  shows "case parseValues (Some (cameraSchemaLine (''Action'' @ numToString (Fin (of_nat i)))))
                (Some (cameraValueLine (CameraAction b v) b v)) of
           Inl e \<Rightarrow> False
         | Inr vals \<Rightarrow> decodeAction u (Fin (of_nat i)) vals = decodedAction u i (CameraAction b v)"
  using assms
  by (simp add: cameraSchemaLine_def cameraValueLine_def decodeCamera_def action_eval
      del: numToString.simps scanTokens.simps)

lemma dialog_decode:
  assumes "encodableAction (DialogAction b v)" and "i < 2 ^ 32"
  shows "case parseValues (Some (dialogSchemaLine (''Action'' @ numToString (Fin (of_nat i)))))
                (Some (dialogValueLine (DialogAction b v) b v)) of
           Inl e \<Rightarrow> False
         | Inr vals \<Rightarrow> decodeAction u (Fin (of_nat i)) vals = decodedAction u i (DialogAction b v)"
  using assms
  by (simp add: dialogSchemaLine_def dialogValueLine_def decodeDialog_def action_eval
      del: numToString.simps scanTokens.simps)

lemma pop_decode:
  assumes "encodableAction (PopAction b v)" and "i < 2 ^ 32"
  shows "case parseValues (Some (popSchemaLine (''Action'' @ numToString (Fin (of_nat i)))))
                (Some (popValueLine (PopAction b v) b v)) of
           Inl e \<Rightarrow> False
         | Inr vals \<Rightarrow> decodeAction u (Fin (of_nat i)) vals = decodedAction u i (PopAction b v)"
  using assms
  by (simp add: popSchemaLine_def popValueLine_def decodePop_def action_eval
      del: numToString.simps scanTokens.simps)

lemma fade_decode:
  assumes "encodableAction (FadeAction b v)" and "i < 2 ^ 32"
  shows "case parseValues (Some (fadeSchemaLine (''Action'' @ numToString (Fin (of_nat i)))))
                (Some (fadeValueLine (FadeAction b v) b v)) of
           Inl e \<Rightarrow> False
         | Inr vals \<Rightarrow> decodeAction u (Fin (of_nat i)) vals = decodedAction u i (FadeAction b v)"
  using assms
  by (simp add: fadeSchemaLine_def fadeValueLine_def decodeFade_def action_eval
      del: numToString.simps scanTokens.simps)

lemma charAnim_decode:
  assumes "encodableAction (CharAnimAction b v)" and "i < 2 ^ 32"
  shows "case parseValues (Some (charAnimSchemaLine (''Action'' @ numToString (Fin (of_nat i)))))
                (Some (charAnimValueLine (CharAnimAction b v) b v)) of
           Inl e \<Rightarrow> False
         | Inr vals \<Rightarrow>
             decodeAction u (Fin (of_nat i)) vals = decodedAction u i (CharAnimAction b v)"
  using assms
  by (simp add: charAnimSchemaLine_def charAnimValueLine_def decodeCharAnim_def action_eval
      del: numToString.simps scanTokens.simps)

lemma objAnim_decode:
  assumes "encodableAction (ObjAnimAction b v)" and "i < 2 ^ 32"
  shows "case parseValues (Some (objAnimSchemaLine (''Action'' @ numToString (Fin (of_nat i)))))
                (Some (objAnimValueLine (ObjAnimAction b v) b v)) of
           Inl e \<Rightarrow> False
         | Inr vals \<Rightarrow>
             decodeAction u (Fin (of_nat i)) vals = decodedAction u i (ObjAnimAction b v)"
  using assms
  by (simp add: objAnimSchemaLine_def objAnimValueLine_def decodeObjAnim_def action_eval
      del: numToString.simps scanTokens.simps)

lemma trigger_decode:
  assumes "encodableAction (TriggerAction b v)" and "i < 2 ^ 32"
  shows "case parseValues (Some (triggerSchemaLine (''Action'' @ numToString (Fin (of_nat i)))))
                (Some (triggerValueLine (TriggerAction b v) b v)) of
           Inl e \<Rightarrow> False
         | Inr vals \<Rightarrow>
             decodeAction u (Fin (of_nat i)) vals = decodedAction u i (TriggerAction b v)"
  using assms
  by (simp add: triggerSchemaLine_def triggerValueLine_def action_eval
      del: numToString.simps scanTokens.simps)

subsection \<open>The lines of an exported record\<close>

lemma exportAction_lines: "exportAction a i = join [newline] (actionLines i a)"
  by (cases a)
     (simp_all add: exportAction_def actionLines_def actionSectionLine_def actionSchemaLine_def
        actionValueLine_def Let_def del: numToString.simps)

lemma exportCameraPath_lines: "exportCameraPath cp = join [newline] (cameraPathLines cp)"
  by (simp add: exportCameraPath_def cameraPathLines_def keyframesSchemaLine_def)

lemmas numChar_lit = numChar_def [of "Char b0 b1 b2 b3 b4 b5 b6 b7"] for b0 b1 b2 b3 b4 b5 b6 b7

lemma showNat_chars: "c \<in> set (showNat n) \<Longrightarrow> numChar c"
  using showNat_digits [of n] by (auto simp: list_all_iff numChar_def)

lemma numToString_chars: "intField n \<Longrightarrow> c \<in> set (numToString n) \<Longrightarrow> numChar c"
  using showNat_chars
  by (auto simp: intField_render(1) decimalOfInt_def numChar_def simp del: numToString.simps
      split: if_splits)

lemma formatFloat_chars:
  assumes "floatField n" and "c \<in> set (formatFloat n 0)"
  shows "numChar c"
proof -
  obtain r where r: "n = Fin r" "\<bar>r\<bar> < 10 ^ 21" using assms(1) by (rule floatField_cases)
  obtain ip fr where ff: "formatFloat (Fin r) 0 = (if r < 0 then ''-'' else []) @ ip @ ''.'' @ fr"
    and ip: "list_all isDigit ip" and fr: "list_all isDigit fr"
    using formatFloat_parts [OF r(2)] by blast
  show ?thesis
    using assms(2) ip fr by (auto simp: r(1) ff numChar_def list_all_iff split: if_splits)
qed

lemma numToString_notin: "intField n \<Longrightarrow> \<not> numChar c \<Longrightarrow> c \<notin> set (numToString n)"
  using numToString_chars by blast

lemma formatFloat_notin: "floatField n \<Longrightarrow> \<not> numChar c \<Longrightarrow> c \<notin> set (formatFloat n 0)"
  using formatFloat_chars by blast

lemma plainToken_notin_newline: "plainToken t \<Longrightarrow> CHR 0x0A \<notin> set t"
  using plainToken_no_newline by (simp add: newline_def)

lemmas chars_eval = format_pad field_facts numToString_notin formatFloat_notin
  plainToken_notin_newline numChar_lit isDigit_lit showNat_notin numToString_of_nat index_bound
  newline_def dquote_def bslash_def quotable_def

lemma concat_splitOn_none:
  "\<forall>l \<in> set ls. c \<notin> set l \<Longrightarrow> concat (map (splitOn c) ls) = ls"
  by (induction ls) (simp_all add: splitOn_none)

lemma splitOn_join_lines:
  "ls \<noteq> [] \<Longrightarrow> \<forall>l \<in> set ls. c \<notin> set l \<Longrightarrow> splitOn c (join [c] ls) = ls"
  by (simp add: splitOn_join concat_splitOn_none)

lemma header_no_newline:
  "encodable c \<Longrightarrow> newline \<notin> set cinemaSchemaLine \<and> newline \<notin> set (cinemaValueLine c)"
  by (simp add: cinemaSchemaLine_def cinemaValueLine_def encodable_def encodableProperties_def
      Let_def chars_eval del: numToString.simps)

lemma shot_no_newline:
  "encodableShot sh \<Longrightarrow> i < 2 ^ 32 \<Longrightarrow> \<forall>l \<in> set (shotLines i sh). newline \<notin> set l"
  by (simp add: shotLines_def shotSectionLine_def shotSchemaLine_def shotValueLine_def
      encodableShot_def chars_eval del: numToString.simps)

lemma syncPoint_no_newline:
  "encodableSyncPoint sp \<Longrightarrow> i < 2 ^ 32 \<Longrightarrow> \<forall>l \<in> set (syncPointLines i sp). newline \<notin> set l"
  by (simp add: syncPointLines_def syncPointSectionLine_def syncPointSchemaLine_def
      syncPointValueLine_def encodableSyncPoint_def chars_eval del: numToString.simps)

lemma action_no_newline:
  "encodableAction a \<Longrightarrow> i < 2 ^ 32 \<Longrightarrow> \<forall>l \<in> set (actionLines i a). newline \<notin> set l"
  by (cases a)
     (simp_all add: actionLines_def actionSectionLine_def actionSchemaLine_def
        actionValueLine_def encodableAction_def encodableBase_def
        cameraSchemaLine_def cameraValueLine_def dialogSchemaLine_def dialogValueLine_def
        popSchemaLine_def popValueLine_def fadeSchemaLine_def fadeValueLine_def
        charAnimSchemaLine_def charAnimValueLine_def objAnimSchemaLine_def objAnimValueLine_def
        triggerSchemaLine_def triggerValueLine_def chars_eval del: numToString.simps)

lemma keyframe_no_newline: "encodableKeyframe kf \<Longrightarrow> newline \<notin> set (keyframeLine kf)"
  by (simp add: keyframeLine_def encodableKeyframe_def chars_eval del: numToString.simps)

lemma cameraPath_no_newline:
  "encodableCameraPath cp \<Longrightarrow> \<forall>l \<in> set (cameraPathLines cp). newline \<notin> set l"
  using keyframe_no_newline
  by (auto simp: cameraPathLines_def cameraPathSchemaLine_def cameraPathValueLine_def
      keyframesSchemaLine_def encodableCameraPath_def list_all_iff chars_eval
      simp del: numToString.simps)

lemma participant_no_newline: "participantToken p \<Longrightarrow> newline \<notin> set (participantLine p)"
  by (simp add: participantLine_def participantToken_def chars_eval)

lemma fixed_no_newline: "\<forall>l \<in> set fixedActionLines. newline \<notin> set l"
  by (simp add: fixedActionLines_def actionMinus1SchemaLine_def actionMinus2SchemaLine_def
      actionMinusValueLine_def chars_eval del: numToString.simps)

lemma shots_split:
  assumes "list_all encodableShot shs" and "length shs < 2 ^ 32"
  shows "concat (map (splitOn newline)
           (concat (map (\<lambda>(i, sh). [shotSectionLine i, shotSchemaLine i, shotValueLine sh])
              (enumerate 0 shs))))
         = concat (map (\<lambda>(i, sh). shotLines i sh) (enumerate 0 shs))"
proof -
  have "\<forall>l \<in> set (concat (map (\<lambda>(i, sh). shotLines i sh) (enumerate 0 shs))). newline \<notin> set l"
  proof (clarsimp simp: in_set_enumerate_eq)
    fix i l
    assume i: "i < length shs" and l: "l \<in> set (shotLines i (shs ! i))" and n: "newline \<in> set l"
    have "encodableShot (shs ! i)" using assms(1) i by (simp add: list_all_length)
    moreover have "i < 2 ^ 32" using i assms(2) by simp
    ultimately show False using shot_no_newline l n by blast
  qed
  then show ?thesis
    using concat_splitOn_none by (simp add: shotLines_def [abs_def])
qed

lemma syncPoints_split:
  assumes "list_all encodableSyncPoint sps" and "length sps < 2 ^ 32"
  shows "concat (map (splitOn newline)
           (concat (map (\<lambda>(i, sp). [syncPointSectionLine i, syncPointSchemaLine i,
                                     syncPointValueLine sp])
              (enumerate 0 sps))))
         = concat (map (\<lambda>(i, sp). syncPointLines i sp) (enumerate 0 sps))"
proof -
  have "\<forall>l \<in> set (concat (map (\<lambda>(i, sp). syncPointLines i sp) (enumerate 0 sps))).
          newline \<notin> set l"
  proof (clarsimp simp: in_set_enumerate_eq)
    fix i l
    assume i: "i < length sps" and l: "l \<in> set (syncPointLines i (sps ! i))"
      and n: "newline \<in> set l"
    have "encodableSyncPoint (sps ! i)" using assms(1) i by (simp add: list_all_length)
    moreover have "i < 2 ^ 32" using i assms(2) by simp
    ultimately show False using syncPoint_no_newline l n by blast
  qed
  then show ?thesis
    using concat_splitOn_none by (simp add: syncPointLines_def [abs_def])
qed

lemma actions_split:
  assumes "list_all encodableAction acts" and "length acts < 2 ^ 32"
  shows "concat (map (splitOn newline)
           (map (\<lambda>(i, action). exportAction action i) (enumerate 0 acts)))
         = concat (map (\<lambda>(i, a). actionLines i a) (enumerate 0 acts))"
proof -
  have "map (splitOn newline) (map (\<lambda>(i, action). exportAction action i) (enumerate 0 acts))
      = map (\<lambda>(i, a). actionLines i a) (enumerate 0 acts)"
  proof (clarsimp simp: in_set_enumerate_eq)
    fix i
    assume i: "i < length acts"
    have "encodableAction (acts ! i)" using assms(1) i by (simp add: list_all_length)
    moreover have "i < 2 ^ 32" using i assms(2) by simp
    ultimately have "\<forall>l \<in> set (actionLines i (acts ! i)). newline \<notin> set l"
      by (rule action_no_newline)
    moreover have "actionLines i (acts ! i) \<noteq> []" by (simp add: actionLines_def)
    ultimately show "splitOn newline (exportAction (acts ! i) i) = actionLines i (acts ! i)"
      by (simp add: exportAction_lines splitOn_join_lines)
  qed
  then show ?thesis by (rule arg_cong)
qed

lemma cameraPaths_split:
  assumes "list_all encodableCameraPath cps"
  shows "concat (map (splitOn newline) (map exportCameraPath cps))
         = concat (map cameraPathLines cps)"
proof -
  have "map (splitOn newline) (map exportCameraPath cps) = map cameraPathLines cps"
  proof (clarsimp)
    fix cp
    assume "cp \<in> set cps"
    then have "encodableCameraPath cp" using assms by (simp add: list_all_iff)
    then have "\<forall>l \<in> set (cameraPathLines cp). newline \<notin> set l"
      by (rule cameraPath_no_newline)
    moreover have "cameraPathLines cp \<noteq> []" by (simp add: cameraPathLines_def)
    ultimately show "splitOn newline (exportCameraPath cp) = cameraPathLines cp"
      by (simp add: exportCameraPath_lines splitOn_join_lines)
  qed
  then show ?thesis by (rule arg_cong)
qed

lemma participants_split:
  assumes "list_all participantToken ps"
  shows "concat (map (splitOn newline) (map participantLine ps)) = map participantLine ps"
  using assms participant_no_newline
  by (intro concat_splitOn_none) (auto simp: list_all_iff)

lemma participantsSection_no_newline:
  "length (participants c) < 2 ^ 32 \<Longrightarrow> newline \<notin> set (participantsSectionLine c)"
  by (simp add: participantsSectionLine_def chars_eval del: numToString.simps)

lemma lines_of_export:
  assumes "encodable c"
  shows "splitOn newline (exportCinema c) = exportedLines c"
proof -
  have ne: "exportCinemaLines c \<noteq> []" by (simp add: exportCinemaLines_def)
  have h: "concat (map (splitOn newline) [''[ Cinema : 1 ]'', cinemaSchemaLine, cinemaValueLine c])
      = [''[ Cinema : 1 ]'', cinemaSchemaLine, cinemaValueLine c]"
    using header_no_newline [OF assms] by (simp add: splitOn_none newline_def)
  have p: "concat (map (splitOn newline) [participantsSectionLine c, '' { PGuid:g           }''])
      = [participantsSectionLine c, '' { PGuid:g           }'']"
    using participantsSection_no_newline [of c] assms
    by (simp add: splitOn_none encodable_def) (simp add: newline_def)
  have f: "concat (map (splitOn newline)
        [''[ Action-1 : 1 ]'', actionMinus1SchemaLine, actionMinusValueLine,
         ''[ Action-2 : 1 ]'', actionMinus2SchemaLine, actionMinusValueLine]) = fixedActionLines"
    using fixed_no_newline concat_splitOn_none [of fixedActionLines newline]
    by (simp add: fixedActionLines_def)
  have e: "concat (map (splitOn newline) [[]]) = [[]]"
    "concat (map (splitOn newline) [[], []]) = [[], []]"
    by simp_all
  note parts = shots_split [of "shots c"] syncPoints_split [of "syncPoints c"]
    actions_split [of "actions c"] cameraPaths_split [of "cameraPaths c"]
    participants_split [of "participants c"]
  have "splitOn newline (exportCinema c) = concat (map (splitOn newline) (exportCinemaLines c))"
    using ne by (simp add: exportCinema_def splitOn_join)
  also have "\<dots> = exportedLines c"
    using assms unfolding exportCinemaLines_def exportedLines_def map_append concat_append
    by (simp only: h p f e parts encodable_def)
  finally show ?thesis .
qed

subsection \<open>The section headers\<close>

lemma parseIntVal_showNat: "i < 2 ^ 32 \<Longrightarrow> parseIntVal (showNat i) = Fin (of_nat i)"
  using intField_render(3) [OF intField_of_nat, of i]
  by (simp add: numToString_of_nat index_bound del: numToString.simps)

lemma startsWith_Cons_hd: "startsWith s (c # p) \<Longrightarrow> c \<in> set s"
  by (cases s) auto

lemma matchIndexedAt_bracket: "matchIndexedAt nm s = Some ds \<Longrightarrow> CHR ''['' \<in> set s"
  by (cases s) (auto simp: matchIndexedAt_def split: if_splits)

lemma matchIndexed_no_bracket: "CHR ''['' \<notin> set s \<Longrightarrow> matchIndexed nm s = None"
proof (induction s)
  case Nil
  show ?case by simp
next
  case (Cons c s)
  have "matchIndexedAt nm (c # s) = None"
    using Cons.prems matchIndexedAt_bracket [of nm "c # s"]
    by (cases "matchIndexedAt nm (c # s)") auto
  then show ?case using Cons by simp
qed

lemma matchIndexed_head:
  "CHR ''['' \<notin> set cs \<Longrightarrow> matchIndexed nm (c # cs) = matchIndexedAt nm (c # cs)"
  by (cases "matchIndexedAt nm (c # cs)") (simp_all add: matchIndexed_no_bracket)

lemma takeWhile_digits_append:
  "list_all isDigit ds \<Longrightarrow> takeWhile isDigit (ds @ cs) = ds @ takeWhile isDigit cs"
  by (induction ds) auto

lemma dropWhile_digits_append:
  "list_all isDigit ds \<Longrightarrow> dropWhile isDigit (ds @ cs) = dropWhile isDigit cs"
  by (induction ds) auto

lemmas section_eval = numToString_of_nat index_bound schema_eval matchIndexed_head
  matchIndexedAt_def takeWhile_digits_append dropWhile_digits_append showNat_digits plainLine_def

lemma shotSection:
  assumes "i < 2 ^ 32"
  shows "trim (shotSectionLine i) = shotSectionLine i"
    and "\<not> startsWith (shotSectionLine i) ''[ Cinema :''"
    and "matchIndexed ''Shot'' (shotSectionLine i) = Some (showNat i)"
  using assms
  by (simp_all add: shotSectionLine_def section_eval del: numToString.simps matchIndexed.simps)

lemma syncPointSection:
  assumes "i < 2 ^ 32"
  shows "trim (syncPointSectionLine i) = syncPointSectionLine i"
    and "\<not> startsWith (syncPointSectionLine i) ''[ Cinema :''"
    and "matchIndexed ''Shot'' (syncPointSectionLine i) = None"
    and "matchIndexed ''SyncPoint'' (syncPointSectionLine i) = Some (showNat i)"
  using assms
  by (simp_all add: syncPointSectionLine_def section_eval
      del: numToString.simps matchIndexed.simps)

lemma actionSection:
  assumes "i < 2 ^ 32"
  shows "trim (actionSectionLine i) = actionSectionLine i"
    and "\<not> startsWith (actionSectionLine i) ''[ Cinema :''"
    and "matchIndexed ''Shot'' (actionSectionLine i) = None"
    and "matchIndexed ''SyncPoint'' (actionSectionLine i) = None"
    and "matchIndexed ''Action'' (actionSectionLine i) = Some (showNat i)"
  using assms
  by (simp_all add: actionSectionLine_def section_eval del: numToString.simps matchIndexed.simps)

lemma participantsSection:
  assumes "length (participants c) < 2 ^ 32"
  shows "plainLine (trim (participantsSectionLine c))"
    and "startsWith (trim (participantsSectionLine c)) ''[ Participants :''"
proof -
  have t: "trim (participantsSectionLine c) = participantsSectionLine c"
    by (rule trim_core) (simp_all add: participantsSectionLine_def isSpace_lit)
  show "plainLine (trim (participantsSectionLine c))"
    unfolding t using assms
    by (simp add: participantsSectionLine_def numToString_of_nat index_bound plainLine_def
        matchIndexed_head matchIndexedAt_def showNat_notin isDigit_lit
        del: numToString.simps matchIndexed.simps)
  show "startsWith (trim (participantsSectionLine c)) ''[ Participants :''"
    unfolding t by (simp add: participantsSectionLine_def)
qed

lemma cameraPathSection:
  "plainLine (trim ''[ CameraPath : 1 ]'')"
  "\<not> startsWith (trim ''[ CameraPath : 1 ]'') ''[ Participants :''"
  "startsWith (trim ''[ CameraPath : 1 ]'') ''[ CameraPath :''"
  "startsWith (trim ''[ Keyframes : 1 ]'') ''[ Keyframes :''"
  by (simp_all add: section_eval del: matchIndexed.simps)

lemma cinemaSection: "startsWith (trim ''[ Cinema : 1 ]'') ''[ Cinema :''"
  "\<not> startsWith (trim ''[ Cinema : 1 ]'') ''//''" "trim ''[ Cinema : 1 ]'' \<noteq> []"
  by (simp_all add: section_eval)

lemma set_trim: "set (trim s) \<subseteq> set s"
  by (auto simp: trim_def dest!: set_dropWhileD)

lemma otherLine_no_bracket:
  assumes "CHR ''['' \<notin> set l"
  shows "otherLine l"
proof -
  have t: "CHR ''['' \<notin> set (trim l)" using assms set_trim by blast
  then have "\<And>p. \<not> startsWith (trim l) (CHR ''['' # p)" using startsWith_Cons_hd by blast
  then show ?thesis using t by (simp add: otherLine_def plainLine_def matchIndexed_no_bracket)
qed

lemma otherLine_blank: "otherLine []"
  by (rule otherLine_no_bracket) simp

lemma otherLine_fixed:
  "otherLine ''[ Action-1 : 1 ]''" "otherLine actionMinus1SchemaLine"
  "otherLine actionMinusValueLine" "otherLine ''[ Action-2 : 1 ]''"
  "otherLine actionMinus2SchemaLine"
proof -
  show "otherLine ''[ Action-1 : 1 ]''" "otherLine ''[ Action-2 : 1 ]''"
    by (simp_all add: otherLine_def section_eval del: matchIndexed.simps)
  show "otherLine actionMinus1SchemaLine"
    by (rule otherLine_no_bracket) (simp add: actionMinus1SchemaLine_def bslash_def)
  show "otherLine actionMinus2SchemaLine"
    by (rule otherLine_no_bracket) (simp add: actionMinus2SchemaLine_def bslash_def)
  show "otherLine actionMinusValueLine"
    by (rule otherLine_no_bracket)
       (simp add: actionMinusValueLine_def chars_eval del: numToString.simps)
qed

subsection \<open>Participants and keyframes\<close>

lemma not_startsWith_notin: "c \<notin> set t \<Longrightarrow> t \<noteq> [] \<Longrightarrow> \<not> startsWith (t @ s) (c # p)"
  by (cases t) auto

lemma participant_line:
  assumes "participantToken p"
  shows "trim (participantLine p) = p" and "trim p = p" and "p \<noteq> []"
    and "\<not> startsWith p ''[''" and "\<not> startsWith p ''{''"
proof -
  have pt: "plainToken p" and h: "hd p \<noteq> CHR ''[''" "hd p \<noteq> CHR ''{''"
    using assms by (simp_all add: participantToken_def)
  show "p \<noteq> []" using pt by (rule plainToken_nonempty)
  show "trim p = p" using pt by (rule plainToken_trim)
  have "trim (''   '' @ p @ '' '') = p"
    using pt by (intro trim_unique) (auto simp: plainToken_def isSpace_def)
  then show "trim (participantLine p) = p" by (simp add: participantLine_def)
  show "\<not> startsWith p ''[''" "\<not> startsWith p ''{''" using h by (cases p; simp)+
qed

lemma splitWs_word_gap:
  assumes "\<forall>c \<in> set w. \<not> isSpace c"
  shows "splitWs (w @ replicate n CHR '' '' @ CHR '' '' # cs) = w # splitWs (dropWhile isSpace cs)"
proof (cases n)
  case 0
  then show ?thesis using splitWs_word_space [OF assms isSpace_space] by simp
next
  case (Suc m)
  have "splitWs (w @ CHR '' '' # (replicate m CHR '' '' @ CHR '' '' # cs))
      = w # splitWs (dropWhile isSpace (replicate m CHR '' '' @ CHR '' '' # cs))"
    using assms isSpace_space by (rule splitWs_word_space)
  then have "splitWs (w @ CHR '' '' # (replicate m CHR '' '' @ CHR '' '' # cs))
      = w # splitWs (dropWhile isSpace cs)"
    by (simp only: dropWhile_space_replicate dropWhile_space_Cons)
  moreover have "replicate n CHR '' '' @ CHR '' '' # cs
      = CHR '' '' # (replicate m CHR '' '' @ CHR '' '' # cs)"
    unfolding Suc by (simp only: replicate_Suc append_Cons)
  ultimately show ?thesis by (simp only:)
qed

lemma numToString_word: "intField n \<Longrightarrow> \<forall>c \<in> set (numToString n). \<not> isSpace c"
  using plainToken_numToString plainToken_word by blast

lemma keyframe_line:
  assumes "encodableKeyframe kf"
  shows "trim (keyframeLine kf) \<noteq> []"
    and "\<not> startsWith (trim (keyframeLine kf)) ''[''"
    and "\<not> startsWith (trim (keyframeLine kf)) ''{''"
    and "decodeKeyframe (trim (keyframeLine kf)) = kf"
proof -
  let ?n = "\<lambda>x. numToString x"
  let ?g = "\<lambda>x. replicate (6 - length (numToString x)) CHR '' ''"
  define core where "core =
    ?n (posX kf) @ ?g (posX kf) @ CHR '' '' # ?n (posY kf) @ ?g (posY kf) @ CHR '' '' #
    ?n (posZ kf) @ ?g (posZ kf) @ CHR '' '' # ?n (oriX kf) @ ?g (oriX kf) @ CHR '' '' #
    ?n (oriY kf) @ ?g (oriY kf) @ CHR '' '' # ?n (oriZ kf) @ ?g (oriZ kf) @ CHR '' '' #
    ?n (oriW kf)"
  have f: "intField (posX kf)" "intField (posY kf)" "intField (posZ kf)" "intField (oriX kf)"
    "intField (oriY kf)" "intField (oriZ kf)" "intField (oriW kf)"
    using assms by (simp_all add: encodableKeyframe_def)
  note pt = f [THEN plainToken_numToString]
  have line: "keyframeLine kf = ''   '' @ core @ ?g (oriW kf)"
    using f by (simp add: keyframeLine_def core_def formatInt_pad intField_render(2)
        del: numToString.simps)
  have hd: "hd core = hd (?n (posX kf))"
    using pt(1) by (simp add: core_def plainToken_def del: numToString.simps)
  have last: "last core = last (?n (oriW kf))"
    using pt(7) by (simp add: core_def plainToken_def del: numToString.simps)
  have ne: "core \<noteq> []" using pt(1) by (simp add: core_def plainToken_def del: numToString.simps)
  have "trim (''   '' @ core @ ?g (oriW kf)) = core"
  proof (rule trim_unique)
    show "list_all isSpace ''   ''" by (simp add: isSpace_def)
    show "list_all isSpace (?g (oriW kf))" by (simp add: list_all_iff isSpace_space)
    show "core \<noteq> []" by (rule ne)
    show "\<not> isSpace (hd core)" using pt(1) plainToken_hd by (simp add: hd del: numToString.simps)
    show "\<not> isSpace (last core)"
      using pt(7) by (simp add: last plainToken_def del: numToString.simps)
  qed
  then have t: "trim (keyframeLine kf) = core" by (simp add: line)
  show "trim (keyframeLine kf) \<noteq> []" using t ne by simp
  have nb: "CHR ''['' \<notin> set (?n (posX kf))" "CHR ''{'' \<notin> set (?n (posX kf))"
    using f(1) by (simp_all add: numToString_notin numChar_lit isDigit_lit del: numToString.simps)
  have c1: "core = ?n (posX kf) @ drop (length (?n (posX kf))) core"
    by (simp add: core_def del: numToString.simps)
  show "\<not> startsWith (trim (keyframeLine kf)) ''[''"
    unfolding t using not_startsWith_notin [OF nb(1) plainToken_nonempty [OF pt(1)]] c1
    by metis
  show "\<not> startsWith (trim (keyframeLine kf)) ''{''"
    unfolding t using not_startsWith_notin [OF nb(2) plainToken_nonempty [OF pt(1)]] c1
    by metis
  have sw: "splitWs core = [?n (posX kf), ?n (posY kf), ?n (posZ kf), ?n (oriX kf),
      ?n (oriY kf), ?n (oriZ kf), ?n (oriW kf)]"
    using f pt
    by (simp add: core_def splitWs_word_gap splitWs_word_space splitWs_word numToString_word
        isSpace_space dropWhile_space_word dropWhile_space_replicate dropWhile_space_Cons
        plainToken_hd plainToken_nonempty del: numToString.simps splitWs.simps)
  show "decodeKeyframe (trim (keyframeLine kf)) = kf"
    using f by (simp add: t decodeKeyframe_def sw nthOrZero_def intField_render(3)
        orZero_intField del: numToString.simps)
qed

subsection \<open>The decoder's loop on the exported lines\<close>

lemma parseLoop_step:
  "i < length lines \<Longrightarrow> loopBody u lines i c k = Inr (Continue i' c' k') \<Longrightarrow>
     parseLoop u lines i c k = parseLoop u lines i' c' k'"
  by (subst parseLoop.simps) simp

lemma parseLoop_end: "parseLoop u lines (length lines) c k = Inr (c, length lines, k)"
  by (subst parseLoop.simps) simp

lemma values_cases:
  assumes "case r of Inl e \<Rightarrow> False | Inr v \<Rightarrow> P v"
  obtains v where "r = Inr v" and "P v"
  using assms by (cases r) auto

lemma values_ex: "(case r of Inl e \<Rightarrow> False | Inr v \<Rightarrow> P v) \<Longrightarrow> \<exists>v. r = Inr v \<and> P v"
  by (cases r) auto

lemma action_decode:
  assumes "encodableAction a" and "i < 2 ^ 32"
  shows "\<exists>vals. parseValues (Some (actionSchemaLine a (''Action'' @ numToString (Fin (of_nat i)))))
                  (Some (actionValueLine a)) = Inr vals
           \<and> decodeAction u (Fin (of_nat i)) vals = decodedAction u i a"
proof (cases a)
  case (CameraAction b v)
  then have "encodableAction (CameraAction b v)" using assms(1) by simp
  then show ?thesis
    using values_ex [OF camera_decode [of b v i u]] assms(2)
    by (simp add: CameraAction actionSchemaLine_def actionValueLine_def del: numToString.simps)
next
  case (DialogAction b v)
  then have "encodableAction (DialogAction b v)" using assms(1) by simp
  then show ?thesis
    using values_ex [OF dialog_decode [of b v i u]] assms(2)
    by (simp add: DialogAction actionSchemaLine_def actionValueLine_def del: numToString.simps)
next
  case (PopAction b v)
  then have "encodableAction (PopAction b v)" using assms(1) by simp
  then show ?thesis
    using values_ex [OF pop_decode [of b v i u]] assms(2)
    by (simp add: PopAction actionSchemaLine_def actionValueLine_def del: numToString.simps)
next
  case (FadeAction b v)
  then have "encodableAction (FadeAction b v)" using assms(1) by simp
  then show ?thesis
    using values_ex [OF fade_decode [of b v i u]] assms(2)
    by (simp add: FadeAction actionSchemaLine_def actionValueLine_def del: numToString.simps)
next
  case (CharAnimAction b v)
  then have "encodableAction (CharAnimAction b v)" using assms(1) by simp
  then show ?thesis
    using values_ex [OF charAnim_decode [of b v i u]] assms(2)
    by (simp add: CharAnimAction actionSchemaLine_def actionValueLine_def del: numToString.simps)
next
  case (ObjAnimAction b v)
  then have "encodableAction (ObjAnimAction b v)" using assms(1) by simp
  then show ?thesis
    using values_ex [OF objAnim_decode [of b v i u]] assms(2)
    by (simp add: ObjAnimAction actionSchemaLine_def actionValueLine_def del: numToString.simps)
next
  case (TriggerAction b v)
  then have "encodableAction (TriggerAction b v)" using assms(1) by simp
  then show ?thesis
    using values_ex [OF trigger_decode [of b v i u]] assms(2)
    by (simp add: TriggerAction actionSchemaLine_def actionValueLine_def del: numToString.simps)
qed

lemma step_other:
  assumes "otherLine l"
  shows "parseLoop u (A @ l # B) (length A) c k = parseLoop u (A @ l # B) (length A + 1) c k"
proof -
  have "loopBody u (A @ l # B) (length A) c k = Inr (Continue (length A + 1) c k)"
    using assms by (intro loopBody_other) (simp_all add: otherLine_def)
  then show ?thesis by (intro parseLoop_step) simp_all
qed

lemma step_shot:
  assumes "encodableShot sh" and "j < 2 ^ 32"
  shows "parseLoop u (A @ shotLines j sh @ B) (length A) c k =
           parseLoop u (A @ shotLines j sh @ B) (length A + 3)
             (c\<lparr> shots := shots c @ [decodedShot (u k) j sh] \<rparr>) (k + 1)"
proof -
  let ?L = "A @ shotLines j sh @ B"
  have l: "?L ! length A = shotSectionLine j"
    "nthOpt ?L (length A + 1) = Some (shotSchemaLine j)"
    "nthOpt ?L (length A + 2) = Some (shotValueLine sh)"
    by (simp_all add: shotLines_def nthOpt_def nth_append)
  obtain v where v: "parseValues (Some (shotSchemaLine j)) (Some (shotValueLine sh)) = Inr v"
    "decodeShot (u k) (Fin (of_nat j)) v = decodedShot (u k) j sh"
    using shot_decode [OF assms, of "u k"] by (rule values_cases)
  note s = shotSection [OF assms(2)]
  have "loopBody u ?L (length A) c k =
      (case parseValues (nthOpt ?L (length A + 1)) (nthOpt ?L (length A + 2)) of
         Inl e \<Rightarrow> Inl e
       | Inr v \<Rightarrow>
           Inr (Continue (length A + 3)
                 (c\<lparr>shots := shots c @ [decodeShot (u k) (parseIntVal (showNat j)) v]\<rparr>)
                 (k + 1)))"
    by (rule loopBody_shot) (simp_all only: l s not_False_eq_True)
  then have "loopBody u ?L (length A) c k =
      Inr (Continue (length A + 3) (c\<lparr>shots := shots c @ [decodedShot (u k) j sh]\<rparr>) (k + 1))"
    by (simp only: l v parseIntVal_showNat [OF assms(2)] sum.case)
  then show ?thesis by (intro parseLoop_step) (simp_all add: shotLines_def)
qed

lemma step_syncPoint:
  assumes "encodableSyncPoint sp" and "j < 2 ^ 32"
  shows "parseLoop u (A @ syncPointLines j sp @ B) (length A) c k =
           parseLoop u (A @ syncPointLines j sp @ B) (length A + 3)
             (c\<lparr> syncPoints := syncPoints c @ [decodedSyncPoint (u k) j sp] \<rparr>) (k + 1)"
proof -
  let ?L = "A @ syncPointLines j sp @ B"
  have l: "?L ! length A = syncPointSectionLine j"
    "nthOpt ?L (length A + 1) = Some (syncPointSchemaLine j)"
    "nthOpt ?L (length A + 2) = Some (syncPointValueLine sp)"
    by (simp_all add: syncPointLines_def nthOpt_def nth_append)
  obtain v where v:
    "parseValues (Some (syncPointSchemaLine j)) (Some (syncPointValueLine sp)) = Inr v"
    "decodeSyncPoint (u k) (Fin (of_nat j)) v = decodedSyncPoint (u k) j sp"
    using syncPoint_decode [OF assms, of "u k"] by (rule values_cases)
  note s = syncPointSection [OF assms(2)]
  have "loopBody u ?L (length A) c k =
      (case parseValues (nthOpt ?L (length A + 1)) (nthOpt ?L (length A + 2)) of
         Inl e \<Rightarrow> Inl e
       | Inr v \<Rightarrow>
           Inr (Continue (length A + 3)
                 (c\<lparr>syncPoints :=
                      syncPoints c @ [decodeSyncPoint (u k) (parseIntVal (showNat j)) v]\<rparr>)
                 (k + 1)))"
    by (rule loopBody_syncPoint) (simp_all only: l s not_False_eq_True)
  then have "loopBody u ?L (length A) c k =
      Inr (Continue (length A + 3)
            (c\<lparr>syncPoints := syncPoints c @ [decodedSyncPoint (u k) j sp]\<rparr>) (k + 1))"
    by (simp only: l v parseIntVal_showNat [OF assms(2)] sum.case)
  then show ?thesis by (intro parseLoop_step) (simp_all add: syncPointLines_def)
qed

lemma step_action:
  assumes "encodableAction a" and "j < 2 ^ 32"
  shows "parseLoop u (A @ actionLines j a @ B) (length A) c k =
           parseLoop u (A @ actionLines j a @ B) (length A + 3)
             (c\<lparr> actions := actions c @ [decodedAction (u k) j a] \<rparr>) (k + 1)"
proof -
  let ?L = "A @ actionLines j a @ B"
  let ?h = "actionSchemaLine a (''Action'' @ numToString (Fin (of_nat j)))"
  have l: "?L ! length A = actionSectionLine j"
    "nthOpt ?L (length A + 1) = Some ?h"
    "nthOpt ?L (length A + 2) = Some (actionValueLine a)"
    by (simp_all add: actionLines_def nthOpt_def nth_append del: numToString.simps)
  obtain v where v: "parseValues (Some ?h) (Some (actionValueLine a)) = Inr v"
    "decodeAction (u k) (Fin (of_nat j)) v = decodedAction (u k) j a"
    using action_decode [OF assms, of "u k"] by blast
  note s = actionSection [OF assms(2)]
  have "loopBody u ?L (length A) c k =
      (case parseValues (nthOpt ?L (length A + 1)) (nthOpt ?L (length A + 2)) of
         Inl e \<Rightarrow> Inl e
       | Inr v \<Rightarrow>
           Inr (Continue (length A + 3)
                 (c\<lparr>actions := actions c @ [decodeAction (u k) (parseIntVal (showNat j)) v]\<rparr>)
                 (k + 1)))"
    by (rule loopBody_action) (simp_all only: l s not_False_eq_True)
  then have "loopBody u ?L (length A) c k =
      Inr (Continue (length A + 3) (c\<lparr>actions := actions c @ [decodedAction (u k) j a]\<rparr>)
            (k + 1))"
    by (simp only: l v parseIntVal_showNat [OF assms(2)] sum.case)
  then show ?thesis by (intro parseLoop_step) (simp_all add: actionLines_def)
qed

lemma shots_loop:
  assumes "list_all encodableShot xs" and "j + length xs \<le> 2 ^ 32"
  shows "parseLoop u (A @ concat (map (\<lambda>(i, x). shotLines i x) (enumerate j xs)) @ B) (length A) c k =
           parseLoop u (A @ concat (map (\<lambda>(i, x). shotLines i x) (enumerate j xs)) @ B)
             (length A + 3 * length xs)
             (c\<lparr> shots := shots c @ map (\<lambda>(i, x). decodedShot (u (k + i - j)) i x) (enumerate j xs) \<rparr>)
             (k + length xs)"
  using assms
proof (induction xs arbitrary: A j c k)
  case Nil
  show ?case by simp
next
  case (Cons x xs)
  let ?S = "concat (map (\<lambda>(i, x). shotLines i x) (enumerate (Suc j) xs))"
  let ?L = "A @ shotLines j x @ ?S @ B"
  let ?c = "c\<lparr> shots := shots c @ [decodedShot (u k) j x] \<rparr>"
  have x: "encodableShot x" "j < 2 ^ 32" and xs: "list_all encodableShot xs" "Suc j + length xs \<le> 2 ^ 32"
    using Cons.prems by simp_all
  have len3: "\<And>i y. length (shotLines i y) = 3" by (simp add: shotLines_def)
  have len: "length (A @ shotLines j x) = length A + 3" by (simp add: len3)
  have "parseLoop u ?L (length A) c k = parseLoop u ?L (length A + 3) ?c (k + 1)"
    using x by (rule step_shot)
  also have "\<dots> = parseLoop u ((A @ shotLines j x) @ ?S @ B) (length (A @ shotLines j x)) ?c (k + 1)"
    by (simp only: len append_assoc)
  also have "\<dots> = parseLoop u ((A @ shotLines j x) @ ?S @ B)
      (length (A @ shotLines j x) + 3 * length xs)
      (?c\<lparr> shots := shots ?c
           @ map (\<lambda>(i, x). decodedShot (u (k + 1 + i - Suc j)) i x) (enumerate (Suc j) xs) \<rparr>)
      (k + 1 + length xs)"
    using xs by (rule Cons.IH)
  finally show ?case using len3 by (simp add: add.assoc)
qed

lemma syncPoints_loop:
  assumes "list_all encodableSyncPoint xs" and "j + length xs \<le> 2 ^ 32"
  shows "parseLoop u (A @ concat (map (\<lambda>(i, x). syncPointLines i x) (enumerate j xs)) @ B) (length A) c k =
           parseLoop u (A @ concat (map (\<lambda>(i, x). syncPointLines i x) (enumerate j xs)) @ B)
             (length A + 3 * length xs)
             (c\<lparr> syncPoints := syncPoints c @ map (\<lambda>(i, x). decodedSyncPoint (u (k + i - j)) i x) (enumerate j xs) \<rparr>)
             (k + length xs)"
  using assms
proof (induction xs arbitrary: A j c k)
  case Nil
  show ?case by simp
next
  case (Cons x xs)
  let ?S = "concat (map (\<lambda>(i, x). syncPointLines i x) (enumerate (Suc j) xs))"
  let ?L = "A @ syncPointLines j x @ ?S @ B"
  let ?c = "c\<lparr> syncPoints := syncPoints c @ [decodedSyncPoint (u k) j x] \<rparr>"
  have x: "encodableSyncPoint x" "j < 2 ^ 32" and xs: "list_all encodableSyncPoint xs" "Suc j + length xs \<le> 2 ^ 32"
    using Cons.prems by simp_all
  have len3: "\<And>i y. length (syncPointLines i y) = 3" by (simp add: syncPointLines_def)
  have len: "length (A @ syncPointLines j x) = length A + 3" by (simp add: len3)
  have "parseLoop u ?L (length A) c k = parseLoop u ?L (length A + 3) ?c (k + 1)"
    using x by (rule step_syncPoint)
  also have "\<dots> = parseLoop u ((A @ syncPointLines j x) @ ?S @ B) (length (A @ syncPointLines j x)) ?c (k + 1)"
    by (simp only: len append_assoc)
  also have "\<dots> = parseLoop u ((A @ syncPointLines j x) @ ?S @ B)
      (length (A @ syncPointLines j x) + 3 * length xs)
      (?c\<lparr> syncPoints := syncPoints ?c
           @ map (\<lambda>(i, x). decodedSyncPoint (u (k + 1 + i - Suc j)) i x) (enumerate (Suc j) xs) \<rparr>)
      (k + 1 + length xs)"
    using xs by (rule Cons.IH)
  finally show ?case using len3 by (simp add: add.assoc)
qed

lemma actions_loop:
  assumes "list_all encodableAction xs" and "j + length xs \<le> 2 ^ 32"
  shows "parseLoop u (A @ concat (map (\<lambda>(i, x). actionLines i x) (enumerate j xs)) @ B) (length A) c k =
           parseLoop u (A @ concat (map (\<lambda>(i, x). actionLines i x) (enumerate j xs)) @ B)
             (length A + 3 * length xs)
             (c\<lparr> actions := actions c @ map (\<lambda>(i, x). decodedAction (u (k + i - j)) i x) (enumerate j xs) \<rparr>)
             (k + length xs)"
  using assms
proof (induction xs arbitrary: A j c k)
  case Nil
  show ?case by simp
next
  case (Cons x xs)
  let ?S = "concat (map (\<lambda>(i, x). actionLines i x) (enumerate (Suc j) xs))"
  let ?L = "A @ actionLines j x @ ?S @ B"
  let ?c = "c\<lparr> actions := actions c @ [decodedAction (u k) j x] \<rparr>"
  have x: "encodableAction x" "j < 2 ^ 32" and xs: "list_all encodableAction xs" "Suc j + length xs \<le> 2 ^ 32"
    using Cons.prems by simp_all
  have len3: "\<And>i y. length (actionLines i y) = 3" by (simp add: actionLines_def)
  have len: "length (A @ actionLines j x) = length A + 3" by (simp add: len3)
  have "parseLoop u ?L (length A) c k = parseLoop u ?L (length A + 3) ?c (k + 1)"
    using x by (rule step_action)
  also have "\<dots> = parseLoop u ((A @ actionLines j x) @ ?S @ B) (length (A @ actionLines j x)) ?c (k + 1)"
    by (simp only: len append_assoc)
  also have "\<dots> = parseLoop u ((A @ actionLines j x) @ ?S @ B)
      (length (A @ actionLines j x) + 3 * length xs)
      (?c\<lparr> actions := actions ?c
           @ map (\<lambda>(i, x). decodedAction (u (k + 1 + i - Suc j)) i x) (enumerate (Suc j) xs) \<rparr>)
      (k + 1 + length xs)"
    using xs by (rule Cons.IH)
  finally show ?case using len3 by (simp add: add.assoc)
qed

lemma segmentI:
  "(\<And>A B. parseLoop u (A @ seg @ B) (length A) c k
             = parseLoop u (A @ seg @ B) (length A + length seg) c' k')
   \<Longrightarrow> segment u seg c k c' k'"
  by (simp add: segment_def)

lemma segmentD:
  "segment u seg c k c' k' \<Longrightarrow>
     parseLoop u (A @ seg @ B) (length A) c k
       = parseLoop u (A @ seg @ B) (length A + length seg) c' k'"
  by (simp add: segment_def)

lemma segment_Nil: "segment u [] c k c k"
  by (simp add: segment_def)

lemma segment_append:
  assumes "segment u s1 c k c1 k1" and "segment u s2 c1 k1 c2 k2"
  shows "segment u (s1 @ s2) c k c2 k2"
proof (rule segmentI)
  fix A B
  have "parseLoop u (A @ s1 @ (s2 @ B)) (length A) c k
      = parseLoop u (A @ s1 @ (s2 @ B)) (length A + length s1) c1 k1"
    using assms(1) by (rule segmentD)
  also have "\<dots> = parseLoop u ((A @ s1) @ s2 @ B) (length (A @ s1)) c1 k1"
    by simp
  also have "\<dots> = parseLoop u ((A @ s1) @ s2 @ B) (length (A @ s1) + length s2) c2 k2"
    using assms(2) by (rule segmentD)
  finally show "parseLoop u (A @ (s1 @ s2) @ B) (length A) c k
      = parseLoop u (A @ (s1 @ s2) @ B) (length A + length (s1 @ s2)) c2 k2"
    by (simp add: add.assoc)
qed

lemma segment_Cons:
  assumes "segment u [l] c k c1 k1" and "segment u s2 c1 k1 c2 k2"
  shows "segment u (l # s2) c k c2 k2"
  using segment_append [OF assms] by simp

lemma segment_other: "otherLine l \<Longrightarrow> segment u [l] c k c k"
  using step_other [of l u _ _ c k] by (auto simp: segment_def)

lemma segment_header:
  assumes "encodable r" and "guid c = []"
  shows "segment u [''[ Cinema : 1 ]'', cinemaSchemaLine, cinemaValueLine r] c k
           (c\<lparr> guid := guid r, objName := objName r, duration := round6 (duration r),
               properties := decodedProperties (properties r) \<rparr>) k"
proof (rule segmentI)
  fix A B
  let ?L = "A @ [''[ Cinema : 1 ]'', cinemaSchemaLine, cinemaValueLine r] @ B"
  obtain v where v: "parseValues (Some cinemaSchemaLine) (Some (cinemaValueLine r)) = Inr v"
    "decodeCinemaHeader v c =
       c\<lparr> guid := guid r, objName := objName r, duration := round6 (duration r),
           properties := decodedProperties (properties r) \<rparr>"
    using header_decode [OF assms(1), of c] by (rule values_cases)
  have l: "?L ! length A = ''[ Cinema : 1 ]''"
    "nthOpt ?L (length A + 1) = Some cinemaSchemaLine"
    "nthOpt ?L (length A + 2) = Some (cinemaValueLine r)"
    by (simp_all add: nthOpt_def nth_append)
  have "loopBody u ?L (length A) c k =
      (case parseValues (nthOpt ?L (length A + 1)) (nthOpt ?L (length A + 2)) of
         Inl e \<Rightarrow> Inl e
       | Inr v \<Rightarrow> Inr (Continue (length A + 3) (decodeCinemaHeader v c) k))"
    using assms(2) cinemaSection(1) by (intro loopBody_header) (simp_all only: l)
  then have "loopBody u ?L (length A) c k = Inr (Continue (length A + 3) (decodeCinemaHeader v c) k)"
    by (simp only: l v sum.case)
  then have "parseLoop u ?L (length A) c k
      = parseLoop u ?L (length A + 3) (decodeCinemaHeader v c) k"
    by (intro parseLoop_step) simp_all
  then show "parseLoop u ?L (length A) c k
      = parseLoop u ?L
          (length A + length [''[ Cinema : 1 ]'', cinemaSchemaLine, cinemaValueLine r])
          (c\<lparr> guid := guid r, objName := objName r, duration := round6 (duration r),
              properties := decodedProperties (properties r) \<rparr>) k"
    by (simp only: v(2) list.size One_nat_def add_Suc_right add_0_right numeral_3_eq_3)
qed

lemma length_triples:
  assumes "\<And>i y. length (f i y) = 3"
  shows "length (concat (map (\<lambda>(i, x). f i x) (enumerate j xs))) = 3 * length xs"
  using assms by (induction xs arbitrary: j) simp_all

lemma segment_shots:
  assumes "list_all encodableShot xs" and "length xs < 2 ^ 32"
  shows "segment u (concat (map (\<lambda>(i, x). shotLines i x) (enumerate 0 xs))) c k
           (c\<lparr> shots := shots c @ map (\<lambda>(i, x). decodedShot (u (k + i)) i x) (enumerate 0 xs) \<rparr>)
           (k + length xs)"
proof (rule segmentI)
  fix A B
  have "length (concat (map (\<lambda>(i, x). shotLines i x) (enumerate 0 xs))) = 3 * length xs"
    by (rule length_triples) (simp add: shotLines_def)
  then show "parseLoop u (A @ concat (map (\<lambda>(i, x). shotLines i x) (enumerate 0 xs)) @ B)
        (length A) c k
      = parseLoop u (A @ concat (map (\<lambda>(i, x). shotLines i x) (enumerate 0 xs)) @ B)
          (length A + length (concat (map (\<lambda>(i, x). shotLines i x) (enumerate 0 xs))))
          (c\<lparr> shots := shots c
               @ map (\<lambda>(i, x). decodedShot (u (k + i)) i x) (enumerate 0 xs) \<rparr>)
          (k + length xs)"
    using shots_loop [of xs 0 u A B c k] assms by simp
qed

lemma segment_syncPoints:
  assumes "list_all encodableSyncPoint xs" and "length xs < 2 ^ 32"
  shows "segment u (concat (map (\<lambda>(i, x). syncPointLines i x) (enumerate 0 xs))) c k
           (c\<lparr> syncPoints := syncPoints c
                @ map (\<lambda>(i, x). decodedSyncPoint (u (k + i)) i x) (enumerate 0 xs) \<rparr>)
           (k + length xs)"
proof (rule segmentI)
  fix A B
  have "length (concat (map (\<lambda>(i, x). syncPointLines i x) (enumerate 0 xs))) = 3 * length xs"
    by (rule length_triples) (simp add: syncPointLines_def)
  then show "parseLoop u (A @ concat (map (\<lambda>(i, x). syncPointLines i x) (enumerate 0 xs)) @ B)
        (length A) c k
      = parseLoop u (A @ concat (map (\<lambda>(i, x). syncPointLines i x) (enumerate 0 xs)) @ B)
          (length A + length (concat (map (\<lambda>(i, x). syncPointLines i x) (enumerate 0 xs))))
          (c\<lparr> syncPoints := syncPoints c
               @ map (\<lambda>(i, x). decodedSyncPoint (u (k + i)) i x) (enumerate 0 xs) \<rparr>)
          (k + length xs)"
    using syncPoints_loop [of xs 0 u A B c k] assms by simp
qed

lemma segment_actions:
  assumes "list_all encodableAction xs" and "length xs < 2 ^ 32"
  shows "segment u (concat (map (\<lambda>(i, x). actionLines i x) (enumerate 0 xs))) c k
           (c\<lparr> actions := actions c
                @ map (\<lambda>(i, x). decodedAction (u (k + i)) i x) (enumerate 0 xs) \<rparr>)
           (k + length xs)"
proof (rule segmentI)
  fix A B
  have "length (concat (map (\<lambda>(i, x). actionLines i x) (enumerate 0 xs))) = 3 * length xs"
    by (rule length_triples) (simp add: actionLines_def)
  then show "parseLoop u (A @ concat (map (\<lambda>(i, x). actionLines i x) (enumerate 0 xs)) @ B)
        (length A) c k
      = parseLoop u (A @ concat (map (\<lambda>(i, x). actionLines i x) (enumerate 0 xs)) @ B)
          (length A + length (concat (map (\<lambda>(i, x). actionLines i x) (enumerate 0 xs))))
          (c\<lparr> actions := actions c
               @ map (\<lambda>(i, x). decodedAction (u (k + i)) i x) (enumerate 0 xs) \<rparr>)
          (k + length xs)"
    using actions_loop [of xs 0 u A B c k] assms by simp
qed

lemma participants_lines_loop:
  assumes "list_all participantToken ps" and "startsWith (trim l) ''[''"
  shows "participantsLoop (A @ map participantLine ps @ l # B) (length A) acc
           = (length A + length ps, acc @ ps)"
  using assms(1)
proof (induction ps arbitrary: A acc)
  case Nil
  show ?case using assms(2) by (subst participantsLoop.simps) (simp add: Let_def)
next
  case (Cons p ps)
  have p: "participantToken p" and ps: "list_all participantToken ps"
    using Cons.prems by simp_all
  note pl = participant_line [OF p]
  let ?L = "A @ map participantLine (p # ps) @ l # B"
  have l: "?L ! length A = participantLine p" by simp
  have "participantsLoop ?L (length A) acc = participantsLoop ?L (length A + 1) (acc @ [p])"
    by (subst participantsLoop.simps) (simp add: Let_def pl del: participantsLoop.simps)
  also have "\<dots> = participantsLoop ((A @ [participantLine p]) @ map participantLine ps @ l # B)
      (length (A @ [participantLine p])) (acc @ [p])"
    by simp
  also have "\<dots> = (length (A @ [participantLine p]) + length ps, (acc @ [p]) @ ps)"
    using ps by (rule Cons.IH)
  finally show ?case by simp
qed

lemma segment_participants:
  assumes "list_all participantToken (participants r)" and "length (participants r) < 2 ^ 32"
  shows "segment u
           ([participantsSectionLine r, '' { PGuid:g           }'']
              @ map participantLine (participants r) @ [''[ Action-1 : 1 ]''])
           c k (c\<lparr> participants := participants c @ participants r \<rparr>) k"
proof (rule segmentI)
  fix A B
  let ?ps = "participants r"
  let ?seg = "[participantsSectionLine r, '' { PGuid:g           }'']
                @ map participantLine ?ps @ [''[ Action-1 : 1 ]'']"
  let ?L = "A @ ?seg @ B"
  let ?A2 = "A @ [participantsSectionLine r, '' { PGuid:g           }'']"
  have L: "?L = ?A2 @ map participantLine ?ps @ ''[ Action-1 : 1 ]'' # B" by simp
  have l0: "?L ! length A = participantsSectionLine r" by simp
  have br: "startsWith (trim ''[ Action-1 : 1 ]'') ''[''" by (simp add: section_eval)
  have pl: "participantsLoop ?L (length A + 2) (participants c)
      = (length A + 2 + length ?ps, participants c @ ?ps)"
    using participants_lines_loop [OF assms(1) br, of ?A2 B "participants c"]
    by (simp only: L) simp
  have "loopBody u ?L (length A) c k =
      Inr (Continue (fst (participantsLoop ?L (length A + 2) (participants c)))
            (c\<lparr>participants := snd (participantsLoop ?L (length A + 2) (participants c))\<rparr>) k)"
    using participantsSection [OF assms(2)] by (intro loopBody_participants) (simp_all only: l0)
  then have "loopBody u ?L (length A) c k =
      Inr (Continue (length A + 2 + length ?ps) (c\<lparr>participants := participants c @ ?ps\<rparr>) k)"
    by (simp only: pl fst_conv snd_conv)
  then have "parseLoop u ?L (length A) c k
      = parseLoop u ?L (length A + 2 + length ?ps) (c\<lparr>participants := participants c @ ?ps\<rparr>) k"
    by (intro parseLoop_step) simp_all
  also have "\<dots> = parseLoop u
        ((?A2 @ map participantLine ?ps) @ ''[ Action-1 : 1 ]'' # B)
        (length (?A2 @ map participantLine ?ps))
        (c\<lparr>participants := participants c @ ?ps\<rparr>) k"
    by simp
  also have "\<dots> = parseLoop u
        ((?A2 @ map participantLine ?ps) @ ''[ Action-1 : 1 ]'' # B)
        (length (?A2 @ map participantLine ?ps) + 1)
        (c\<lparr>participants := participants c @ ?ps\<rparr>) k"
    using otherLine_fixed(1) by (rule step_other)
  finally show "parseLoop u ?L (length A) c k
      = parseLoop u ?L (length A + length ?seg) (c\<lparr>participants := participants c @ ?ps\<rparr>) k"
    by (simp add: add.assoc)
qed

lemma keyframes_lines_loop:
  assumes "list_all encodableKeyframe kfs"
  shows "keyframesLoop (A @ map keyframeLine kfs @ [] # B) (length A) acc
           = (length A + length kfs, acc @ kfs)"
  using assms
proof (induction kfs arbitrary: A acc)
  case Nil
  show ?case by (subst keyframesLoop.simps) (simp add: Let_def trim_def)
next
  case (Cons kf kfs)
  have kf: "encodableKeyframe kf" and kfs: "list_all encodableKeyframe kfs"
    using Cons.prems by simp_all
  note kl = keyframe_line [OF kf]
  let ?L = "A @ map keyframeLine (kf # kfs) @ [] # B"
  have "keyframesLoop ?L (length A) acc = keyframesLoop ?L (length A + 1) (acc @ [kf])"
    by (subst keyframesLoop.simps) (simp add: Let_def kl del: keyframesLoop.simps)
  also have "\<dots> = keyframesLoop ((A @ [keyframeLine kf]) @ map keyframeLine kfs @ [] # B)
      (length (A @ [keyframeLine kf])) (acc @ [kf])"
    by simp
  also have "\<dots> = (length (A @ [keyframeLine kf]) + length kfs, (acc @ [kf]) @ kfs)"
    using kfs by (rule Cons.IH)
  finally show ?case by simp
qed

lemma decodedCameraPath_keyframes:
  "(decodedCameraPath uu cp)\<lparr> cp_keyframes := [] \<rparr>\<lparr> cp_keyframes := cp_keyframes cp \<rparr>
     = decodedCameraPath uu cp"
  by (simp add: decodedCameraPath_def)

lemma decodedCameraPath_keyframes_same:
  "(decodedCameraPath uu cp)\<lparr> cp_keyframes := cp_keyframes cp \<rparr> = decodedCameraPath uu cp"
  by (simp add: decodedCameraPath_def)

lemma segment_cameraPath:
  assumes "encodableCameraPath cp"
  shows "segment u (cameraPathLines cp) c k
           (c\<lparr> cameraPaths := cameraPaths c @ [decodedCameraPath (u k) cp] \<rparr>) (k + 1)"
proof (rule segmentI)
  fix A B
  let ?kfs = "cp_keyframes cp"
  let ?hd = "[''[ CameraPath : 1 ]'', cameraPathSchemaLine, cameraPathValueLine cp,
              ''[ Keyframes : 1 ]'', keyframesSchemaLine]"
  let ?L = "A @ cameraPathLines cp @ B"
  let ?A5 = "A @ ?hd"
  have kfs: "list_all encodableKeyframe ?kfs" "?kfs \<noteq> []"
    using assms by (simp_all add: encodableCameraPath_def)
  have L: "?L = ?A5 @ map keyframeLine ?kfs @ [] # B" by (simp add: cameraPathLines_def)
  have l: "?L ! length A = ''[ CameraPath : 1 ]''"
    "nthOpt ?L (length A + 1) = Some cameraPathSchemaLine"
    "nthOpt ?L (length A + 2) = Some (cameraPathValueLine cp)"
    "?L ! (length A + 3) = ''[ Keyframes : 1 ]''"
    "length A + 3 < length ?L"
    by (simp_all add: cameraPathLines_def nthOpt_def nth_append)
  obtain v where v: "parseValues (Some cameraPathSchemaLine) (Some (cameraPathValueLine cp)) = Inr v"
    "decodeCameraPath (u k) v = (decodedCameraPath (u k) cp)\<lparr> cp_keyframes := [] \<rparr>"
    using cameraPath_decode [OF assms, of "u k"] by (rule values_cases)
  have kl: "keyframesLoop ?L (length A + 5) [] = (length A + 5 + length ?kfs, ?kfs)"
  proof -
    have len5: "length ?A5 = length A + 5" by simp
    show ?thesis
      using keyframes_lines_loop [OF kfs(1), of ?A5 B "[]"]
      by (simp only: L [symmetric] len5 append_Nil)
  qed
  have sk: "sectionKeyframes ?L (length A) = ?kfs"
    using cameraPathSection(4) by (simp only: sectionKeyframes_def l kl) simp
  have "loopBody u ?L (length A) c k =
      (case parseValues (nthOpt ?L (length A + 1)) (nthOpt ?L (length A + 2)) of
         Inl e \<Rightarrow> Inl e
       | Inr v \<Rightarrow>
           Inr (Continue
                 (if length A + 3 < length ?L
                       \<and> startsWith (trim (?L ! (length A + 3))) ''[ Keyframes :''
                  then fst (keyframesLoop ?L (length A + 5) []) else length A + 3)
                 (c\<lparr>cameraPaths := cameraPaths c @
                     [(decodeCameraPath (u k) v)
                        \<lparr>cp_keyframes :=
                           (if sectionKeyframes ?L (length A) = [] then [createDefaultKeyframe]
                            else sectionKeyframes ?L (length A))\<rparr>]\<rparr>)
                 (k + 1)))"
    by (intro loopBody_cameraPath) (simp_all only: l cameraPathSection not_False_eq_True)
  then have "loopBody u ?L (length A) c k =
      Inr (Continue (length A + 5 + length ?kfs)
            (c\<lparr>cameraPaths := cameraPaths c @ [decodedCameraPath (u k) cp]\<rparr>) (k + 1))"
    using cameraPathSection(4) kfs(2)
    by (simp only: l v sk kl sum.case fst_conv decodedCameraPath_keyframes)
       (simp add: decodedCameraPath_keyframes_same)
  then have "parseLoop u ?L (length A) c k
      = parseLoop u ?L (length A + 5 + length ?kfs)
          (c\<lparr>cameraPaths := cameraPaths c @ [decodedCameraPath (u k) cp]\<rparr>) (k + 1)"
    by (intro parseLoop_step) (simp_all add: cameraPathLines_def)
  also have "\<dots> = parseLoop u ((?A5 @ map keyframeLine ?kfs) @ [] # B)
        (length (?A5 @ map keyframeLine ?kfs))
        (c\<lparr>cameraPaths := cameraPaths c @ [decodedCameraPath (u k) cp]\<rparr>) (k + 1)"
    by (simp add: cameraPathLines_def eval_nat_numeral)
  also have "\<dots> = parseLoop u ((?A5 @ map keyframeLine ?kfs) @ [] # B)
        (length (?A5 @ map keyframeLine ?kfs) + 1)
        (c\<lparr>cameraPaths := cameraPaths c @ [decodedCameraPath (u k) cp]\<rparr>) (k + 1)"
    using otherLine_blank by (rule step_other)
  finally show "parseLoop u ?L (length A) c k
      = parseLoop u ?L (length A + length (cameraPathLines cp))
          (c\<lparr>cameraPaths := cameraPaths c @ [decodedCameraPath (u k) cp]\<rparr>) (k + 1)"
    by (simp add: cameraPathLines_def eval_nat_numeral)
qed

lemma segment_cameraPaths:
  assumes "list_all encodableCameraPath cps"
  shows "segment u (concat (map cameraPathLines cps)) c k
           (c\<lparr> cameraPaths := cameraPaths c
                @ map (\<lambda>(i, cp). decodedCameraPath (u (k + i - j)) cp) (enumerate j cps) \<rparr>)
           (k + length cps)"
  using assms
proof (induction cps arbitrary: c k j)
  case Nil
  show ?case using segment_Nil [of u c k] by simp
next
  case (Cons cp cps)
  let ?c = "c\<lparr> cameraPaths := cameraPaths c @ [decodedCameraPath (u k) cp] \<rparr>"
  have cp: "encodableCameraPath cp" and cps: "list_all encodableCameraPath cps"
    using Cons.prems by simp_all
  have a: "segment u (cameraPathLines cp) c k ?c (k + 1)"
    using cp by (rule segment_cameraPath)
  have b: "segment u (concat (map cameraPathLines cps)) ?c (k + 1)
      (?c\<lparr> cameraPaths := cameraPaths ?c
           @ map (\<lambda>(i, cp). decodedCameraPath (u (k + 1 + i - Suc j)) cp) (enumerate (Suc j) cps) \<rparr>)
      (k + 1 + length cps)"
    using cps by (rule Cons.IH)
  show ?case using segment_append [OF a b] by simp
qed

lemma segment_blank: "segment u [[]] c k c k"
  using otherLine_blank by (rule segment_other)

lemma segment_blanks: "segment u [[], []] c k c k"
  using segment_blank segment_blank by (rule segment_Cons)

lemma segment_fixed:
  "segment u
     [actionMinus1SchemaLine, actionMinusValueLine, ''[ Action-2 : 1 ]'', actionMinus2SchemaLine,
      actionMinusValueLine] c k c k"
proof -
  note o = otherLine_fixed [THEN segment_other, of u c k]
  show ?thesis
    by (rule segment_Cons [OF o(2)] segment_Cons [OF o(3)] segment_Cons [OF o(4)]
        segment_Cons [OF o(5)] o(3))+
qed

lemma scan_open:
  "dquote \<notin> set rest \<Longrightarrow> scanTokens rest cur True toks = pushToken (cur @ rest) toks"
  using scan_body [of rest True "[]" cur toks] by simp

lemma quoteShot_tokens:
  "\<exists>rest. tokenize (shotValueLine quoteShot) = [dquote # ''a'' @ [dquote], CHR ''b'' # rest]"
proof -
  define R where "R = replicate 6 CHR '' '' @ '' '' @ formatInt (Fin 1) 16 @ '' ''
    @ formatInt (Fin 1) 16 @ '' '' @ formatFloat (Fin 10) 14 @ '' '' @ formatFloat (Fin 0) 12"
  have l: "shotValueLine quoteShot
      = ''   '' @ dquote # ''a'' @ dquote # CHR '' '' # CHR ''b'' # dquote # R"
    by (simp add: shotValueLine_def quoteShot_def formatString_pad R_def
        del: replicate.simps replicate_Suc)
  have R: "dquote \<notin> set R"
    by (simp add: R_def chars_eval dquote_def del: numToString.simps)
  have "tokenize (shotValueLine quoteShot)
      = scanTokens (CHR ''b'' # dquote # R) [] False [dquote # ''a'' @ [dquote]]"
    unfolding tokenize_scan l
    using scan_quoted [of "''a''" "CHR '' '' # CHR ''b'' # dquote # R" "[]"]
      tokenDone_quoted [of "''a''"]
    by (simp add: scan_rules dquote_def del: scanTokens.simps)
  also have "\<dots> = scanTokens R (''b'' @ [dquote]) True [dquote # ''a'' @ [dquote]]"
    by (simp add: dquote_def)
  also have "\<dots> = pushToken ((''b'' @ [dquote]) @ R) [dquote # ''a'' @ [dquote]]"
    using R by (rule scan_open)
  also have "\<dots> = [dquote # ''a'' @ [dquote], CHR ''b'' # trimRight (dquote # R)]"
    by (simp add: pushToken_def trim_Cons isSpace_lit)
  finally show ?thesis by blast
qed

lemma parseIntVal_letter: "parseIntVal (CHR ''b'' # rest) = Fin 0"
  by (simp add: num_eval)

lemma quoteShot_decode:
  "\<exists>v. parseValues (Some (shotSchemaLine 0)) (Some (shotValueLine quoteShot)) = Inr v
     \<and> decodeShot u (Fin 0) v =
         \<lparr> sh_id = u, sh_index = Fin 0, sh_name = ''a'', sh_nextShot = Fin 0,
           sh_skipShot = Fin 0, sh_maxTime = Fin 10, sh_time = Fin 0 \<rparr>"
proof -
  obtain rest where
    t: "tokenize (shotValueLine quoteShot) = [dquote # ''a'' @ [dquote], CHR ''b'' # rest]"
    using quoteShot_tokens by blast
  have f: "schemaFields (shotSchemaLine 0) =
      Some (map (\<lambda>f. ''Shot'' @ showNat 0 @ [bslash] @ f)
        [''Name:s'', ''NextShot:d'', ''SkipShot:d'', ''MaxTime:f'', ''Time:f''])"
    by (rule shot_fields) simp
  have "parseValues (Some (shotSchemaLine 0)) (Some (shotValueLine quoteShot))
      = Inr (boundValues (map (\<lambda>f. ''Shot'' @ showNat 0 @ [bslash] @ f)
          [''Name:s'', ''NextShot:d'', ''SkipShot:d'', ''MaxTime:f'', ''Time:f''])
          [dquote # ''a'' @ [dquote], CHR ''b'' # rest])"
    using parseValues_bound [OF f] by (simp only: t)
  moreover have "decodeShot u (Fin 0)
       (boundValues (map (\<lambda>f. ''Shot'' @ showNat 0 @ [bslash] @ f)
          [''Name:s'', ''NextShot:d'', ''SkipShot:d'', ''MaxTime:f'', ''Time:f''])
          [dquote # ''a'' @ [dquote], CHR ''b'' # rest])
      = \<lparr> sh_id = u, sh_index = Fin 0, sh_name = ''a'', sh_nextShot = Fin 0,
           sh_skipShot = Fin 0, sh_maxTime = Fin 10, sh_time = Fin 0 \<rparr>"
    using parseString_quoted [of "''a''"]
    by (simp add: decodeShot_def bind_eval showNat_eval orElse_def parseIntVal_letter
        parse_defaults dquote_def)
  ultimately show ?thesis by simp
qed

lemma nan_tokens:
  assumes "dquote \<notin> set nm" and "plainToken t"
  shows "tokenize (''   '' @ formatString nm 12 @ '' '' @ formatInt (Fin 1) 16 @ '' ''
           @ formatInt (Fin 1) 16 @ '' '' @ (t @ replicate 11 CHR '' '') @ '' ''
           @ formatFloat (Fin 0) 12)
         = [dquote # nm @ [dquote], numToString (Fin 1), numToString (Fin 1), t,
            formatFloat (Fin 0) 0]"
proof -
  have i: "intField (Fin 1)" "floatField (Fin 0)" by simp_all
  show ?thesis
    using assms i
    by (simp add: tokenize_scan format_pad scan_rules field_facts
        del: scanTokens.simps numToString.simps)
qed

lemma nanShot_tokens:
  "tokenize (shotValueLine nanShot) =
     [dquote # ''Outro'' @ [dquote], numToString (Fin 1), numToString (Fin 1), ''NaN'',
      formatFloat (Fin 0) 0]"
proof -
  have n: "formatFloat NaN 14 = ''NaN'' @ replicate 11 CHR '' ''"
    by (simp add: formatFloat_def toFixed6_def padEnd_def)
  have p: "plainToken ''NaN''" by (simp add: plainToken_def isSpace_lit dquote_def)
  have q: "dquote \<notin> set ''Outro''" by (simp add: dquote_def)
  have "shotValueLine nanShot =
      ''   '' @ formatString ''Outro'' 12 @ '' '' @ formatInt (Fin 1) 16 @ '' ''
        @ formatInt (Fin 1) 16 @ '' '' @ (''NaN'' @ replicate 11 CHR '' '') @ '' ''
        @ formatFloat (Fin 0) 12"
    by (simp add: shotValueLine_def nanShot_def formatInt_pad floor_eval n
        del: numToString.simps)
  then show ?thesis
    using nan_tokens [OF q p] by simp
qed

lemma nanShot_decode:
  "\<exists>v. parseValues (Some (shotSchemaLine 1)) (Some (shotValueLine nanShot)) = Inr v
     \<and> decodeShot u (Fin 1) v =
         \<lparr> sh_id = u, sh_index = Fin 1, sh_name = ''Outro'', sh_nextShot = Fin 1,
           sh_skipShot = Fin 1, sh_maxTime = Fin 0, sh_time = Fin 0 \<rparr>"
proof -
  have f: "schemaFields (shotSchemaLine 1) =
      Some (map (\<lambda>f. ''Shot'' @ showNat 1 @ [bslash] @ f)
        [''Name:s'', ''NextShot:d'', ''SkipShot:d'', ''MaxTime:f'', ''Time:f''])"
    by (rule shot_fields) simp
  have i: "intField (Fin 1)" "floatField (Fin 0)" by simp_all
  have z: "parseFloatVal ''NaN'' = Fin 0" by (simp add: num_eval)
  have one: "numToString (Fin 1) = ''1''"
    using numToString_of_nat [of 1] by (simp add: showNat_eval)
  have "parseValues (Some (shotSchemaLine 1)) (Some (shotValueLine nanShot))
      = Inr (boundValues (map (\<lambda>f. ''Shot'' @ showNat 1 @ [bslash] @ f)
          [''Name:s'', ''NextShot:d'', ''SkipShot:d'', ''MaxTime:f'', ''Time:f''])
          [dquote # ''Outro'' @ [dquote], numToString (Fin 1), numToString (Fin 1), ''NaN'',
           formatFloat (Fin 0) 0])"
    using parseValues_bound [OF f] by (simp only: nanShot_tokens)
  moreover have "decodeShot u (Fin 1)
       (boundValues (map (\<lambda>f. ''Shot'' @ showNat 1 @ [bslash] @ f)
          [''Name:s'', ''NextShot:d'', ''SkipShot:d'', ''MaxTime:f'', ''Time:f''])
          [dquote # ''Outro'' @ [dquote], numToString (Fin 1), numToString (Fin 1), ''NaN'',
           formatFloat (Fin 0) 0])
      = \<lparr> sh_id = u, sh_index = Fin 1, sh_name = ''Outro'', sh_nextShot = Fin 1,
           sh_skipShot = Fin 1, sh_maxTime = Fin 0, sh_time = Fin 0 \<rparr>"
    using parseString_quoted [of "''Outro''"] i z one
    by (simp add: decodeShot_def bind_eval showNat_eval decode_eval parse_defaults dquote_def
        del: numToString.simps)
  ultimately show ?thesis by simp
qed

subsection \<open>The sections after the shots\<close>

lemma segment_tail:
  assumes "list_all encodableSyncPoint (syncPoints r)" and "length (syncPoints r) < 2 ^ 32"
    and "list_all encodableAction (actions r)" and "length (actions r) < 2 ^ 32"
    and "list_all participantToken (participants r)" and "length (participants r) < 2 ^ 32"
    and "list_all encodableCameraPath (cameraPaths r)"
  shows "segment u
      ([[]]
       @ concat (map (\<lambda>(i, x). syncPointLines i x) (enumerate 0 (syncPoints r)))
       @ [[], []]
       @ concat (map (\<lambda>(i, x). actionLines i x) (enumerate 0 (actions r)))
       @ [[]]
       @ [participantsSectionLine r, '' { PGuid:g           }'']
       @ map participantLine (participants r)
       @ fixedActionLines
       @ [[]]
       @ concat (map cameraPathLines (cameraPaths r)))
      c k
      (c\<lparr> syncPoints := syncPoints c
            @ map (\<lambda>(i, x). decodedSyncPoint (u (k + i)) i x) (enumerate 0 (syncPoints r)),
          actions := actions c
            @ map (\<lambda>(i, x). decodedAction (u (k + length (syncPoints r) + i)) i x)
                (enumerate 0 (actions r)),
          participants := participants c @ participants r,
          cameraPaths := cameraPaths c
            @ map (\<lambda>(i, cp). decodedCameraPath
                     (u (k + length (syncPoints r) + length (actions r) + i)) cp)
                (enumerate 0 (cameraPaths r)) \<rparr>)
      (k + length (syncPoints r) + length (actions r) + length (cameraPaths r))"
proof -
  let ?np = "length (syncPoints r)" and ?na = "length (actions r)"
  define c3 where "c3 = c\<lparr> syncPoints := syncPoints c
      @ map (\<lambda>(i, x). decodedSyncPoint (u (k + i)) i x) (enumerate 0 (syncPoints r)) \<rparr>"
  define c4 where "c4 = c3\<lparr> actions := actions c3
      @ map (\<lambda>(i, x). decodedAction (u (k + ?np + i)) i x) (enumerate 0 (actions r)) \<rparr>"
  define c5 where "c5 = c4\<lparr> participants := participants c4 @ participants r \<rparr>"
  define c6 where "c6 = c5\<lparr> cameraPaths := cameraPaths c5
      @ map (\<lambda>(i, cp). decodedCameraPath (u (k + ?np + ?na + i - 0)) cp)
          (enumerate 0 (cameraPaths r)) \<rparr>"
  have s3: "segment u (concat (map (\<lambda>(i, x). syncPointLines i x) (enumerate 0 (syncPoints r))))
      c k c3 (k + ?np)"
    unfolding c3_def using assms(1,2) by (rule segment_syncPoints)
  have s4: "segment u (concat (map (\<lambda>(i, x). actionLines i x) (enumerate 0 (actions r))))
      c3 (k + ?np) c4 (k + ?np + ?na)"
    unfolding c4_def using assms(3,4) by (rule segment_actions)
  have s5: "segment u
      ([participantsSectionLine r, '' { PGuid:g           }'']
         @ map participantLine (participants r) @ [''[ Action-1 : 1 ]''])
      c4 (k + ?np + ?na) c5 (k + ?np + ?na)"
    unfolding c5_def using assms(5,6) by (rule segment_participants)
  have s6: "segment u (concat (map cameraPathLines (cameraPaths r)))
      c5 (k + ?np + ?na) c6 (k + ?np + ?na + length (cameraPaths r))"
    unfolding c6_def using assms(7) by (rule segment_cameraPaths)
  note b = segment_blank [of u] and bb = segment_blanks [of u] and f = segment_fixed [of u]
  have "segment u
      ([[]]
       @ concat (map (\<lambda>(i, x). syncPointLines i x) (enumerate 0 (syncPoints r)))
       @ [[], []]
       @ concat (map (\<lambda>(i, x). actionLines i x) (enumerate 0 (actions r)))
       @ [[]]
       @ ([participantsSectionLine r, '' { PGuid:g           }'']
            @ map participantLine (participants r) @ [''[ Action-1 : 1 ]''])
       @ [actionMinus1SchemaLine, actionMinusValueLine, ''[ Action-2 : 1 ]'',
          actionMinus2SchemaLine, actionMinusValueLine]
       @ [[]]
       @ concat (map cameraPathLines (cameraPaths r)))
      c k c6 (k + ?np + ?na + length (cameraPaths r))"
    by (rule segment_append [OF b]
        segment_append [OF s3] segment_append [OF bb] segment_append [OF s4]
        segment_append [OF s5] segment_append [OF f] s6)+
  moreover have "c6 = c\<lparr> syncPoints := syncPoints c
            @ map (\<lambda>(i, x). decodedSyncPoint (u (k + i)) i x) (enumerate 0 (syncPoints r)),
          actions := actions c
            @ map (\<lambda>(i, x). decodedAction (u (k + length (syncPoints r) + i)) i x)
                (enumerate 0 (actions r)),
          participants := participants c @ participants r,
          cameraPaths := cameraPaths c
            @ map (\<lambda>(i, cp). decodedCameraPath
                     (u (k + length (syncPoints r) + length (actions r) + i)) cp)
                (enumerate 0 (cameraPaths r)) \<rparr>"
    by (simp add: c6_def c5_def c4_def c3_def)
  ultimately show ?thesis
    by (simp add: fixedActionLines_def)
qed

text \<open>The whole text, given the section of the shots.\<close>

lemma segment_whole:
  assumes h: "segment u [''[ Cinema : 1 ]'', cinemaSchemaLine, cinemaValueLine r] emptyCinema 0 c1 0"
    and s: "segment u (concat (map (\<lambda>(i, x). shotLines i x) (enumerate 0 (shots r)))) c1 0 c2 n"
    and t: "list_all encodableSyncPoint (syncPoints r)" "length (syncPoints r) < 2 ^ 32"
      "list_all encodableAction (actions r)" "length (actions r) < 2 ^ 32"
      "list_all participantToken (participants r)" "length (participants r) < 2 ^ 32"
      "list_all encodableCameraPath (cameraPaths r)"
  shows "parseLoop u (exportedLines r) 0 emptyCinema 0 =
      Inr (c2\<lparr> syncPoints := syncPoints c2
            @ map (\<lambda>(i, x). decodedSyncPoint (u (n + i)) i x) (enumerate 0 (syncPoints r)),
          actions := actions c2
            @ map (\<lambda>(i, x). decodedAction (u (n + length (syncPoints r) + i)) i x)
                (enumerate 0 (actions r)),
          participants := participants c2 @ participants r,
          cameraPaths := cameraPaths c2
            @ map (\<lambda>(i, cp). decodedCameraPath
                     (u (n + length (syncPoints r) + length (actions r) + i)) cp)
                (enumerate 0 (cameraPaths r)) \<rparr>,
        length (exportedLines r),
        n + length (syncPoints r) + length (actions r) + length (cameraPaths r))"
proof -
  let ?L = "exportedLines r"
  note tl = segment_tail [OF t, of u c2 n]
  have "segment u ?L emptyCinema 0
      (c2\<lparr> syncPoints := syncPoints c2
            @ map (\<lambda>(i, x). decodedSyncPoint (u (n + i)) i x) (enumerate 0 (syncPoints r)),
          actions := actions c2
            @ map (\<lambda>(i, x). decodedAction (u (n + length (syncPoints r) + i)) i x)
                (enumerate 0 (actions r)),
          participants := participants c2 @ participants r,
          cameraPaths := cameraPaths c2
            @ map (\<lambda>(i, cp). decodedCameraPath
                     (u (n + length (syncPoints r) + length (actions r) + i)) cp)
                (enumerate 0 (cameraPaths r)) \<rparr>)
      (n + length (syncPoints r) + length (actions r) + length (cameraPaths r))"
    unfolding exportedLines_def
    by (rule segment_append [OF h] segment_append [OF s] tl)+
  from segmentD [OF this, of "[]" "[]"] show ?thesis
    by (simp add: parseLoop_end)
qed

lemma fileLoop_whole:
  assumes "parseLoop u (exportedLines r) 0 emptyCinema 0 = Inr (c, length (exportedLines r), n)"
  shows "fileLoop u (exportedLines r) 0 [] 0 = Inr [c]"
proof -
  let ?L = "exportedLines r"
  have l0: "?L ! 0 = ''[ Cinema : 1 ]''" "0 < length ?L" by (simp_all add: exportedLines_def)
  have p: "parseSingleCinema u ?L 0 0 = Inr (c, length ?L, n)"
    using assms by (simp add: parseSingleCinema_def)
  have "fileLoop u ?L 0 [] 0 = fileLoop u ?L (length ?L) ([] @ [c]) n"
    using l0 cinemaSection p by (subst fileLoop.simps) (simp add: Let_def)
  also have "\<dots> = Inr [c]"
    by (subst fileLoop.simps) simp
  finally show ?thesis .
qed

lemma export_parse:
  assumes "encodable r"
  shows "parseCinemaFile u (exportCinema r) = [decodedCinema u r]"
proof -
  let ?ns = "length (shots r)"
  have enc: "list_all encodableShot (shots r)" "?ns < 2 ^ 32"
    "list_all encodableSyncPoint (syncPoints r)" "length (syncPoints r) < 2 ^ 32"
    "list_all encodableAction (actions r)" "length (actions r) < 2 ^ 32"
    "list_all participantToken (participants r)" "length (participants r) < 2 ^ 32"
    "list_all encodableCameraPath (cameraPaths r)"
    using assms by (simp_all add: encodable_def)
  define c1 where "c1 = emptyCinema
      \<lparr> guid := guid r, objName := objName r, duration := round6 (duration r),
        properties := decodedProperties (properties r) \<rparr>"
  define c2 where "c2 = c1\<lparr> shots := shots c1
      @ map (\<lambda>(i, x). decodedShot (u (0 + i)) i x) (enumerate 0 (shots r)) \<rparr>"
  have s1: "segment u [''[ Cinema : 1 ]'', cinemaSchemaLine, cinemaValueLine r] emptyCinema 0 c1 0"
    unfolding c1_def using assms guid_emptyCinema by (rule segment_header)
  have s2: "segment u (concat (map (\<lambda>(i, x). shotLines i x) (enumerate 0 (shots r)))) c1 0 c2
      (0 + ?ns)"
    unfolding c2_def using enc(1,2) by (rule segment_shots)
  have "fileLoop u (exportedLines r) 0 [] 0 = Inr [decodedCinema u r]"
    using segment_whole [OF s1 s2 enc(3-9)]
    by (rule fileLoop_whole [THEN trans])
       (simp add: c2_def c1_def decodedCinema_def emptyCinema_def)
  then show ?thesis
    using lines_of_export [OF assms] by (simp add: parseCinemaFile_def)
qed

subsection \<open>The samples\<close>

lemma encodable_sampleCinema: "encodable sampleCinema"
  by (simp add: encodable_def sampleCinema_def emptyCinema_def createDefaultCinemaProperties_def
      encodableProperties_def encodableShot_def sampleShot_def encodableSyncPoint_def
      staleSyncPoint_def encodableCameraPath_def sampleCameraPath_def encodableKeyframe_def
      createDefaultKeyframe_def quotable_def plainToken_def float3_def float6_def
      encodableAction_def encodableBase_def sampleBase_def sampleCamera_def sampleDialog_def
      participantToken_def dquote_def newline_def isSpace_lit)

lemma segment_shot_values:
  assumes "j < 2 ^ 32"
    and "parseValues (Some (shotSchemaLine j)) (Some (shotValueLine sh)) = Inr v"
  shows "segment u (shotLines j sh) c k
           (c\<lparr> shots := shots c @ [decodeShot (u k) (Fin (of_nat j)) v] \<rparr>) (k + 1)"
proof (rule segmentI)
  fix A B
  let ?L = "A @ shotLines j sh @ B"
  have l: "?L ! length A = shotSectionLine j"
    "nthOpt ?L (length A + 1) = Some (shotSchemaLine j)"
    "nthOpt ?L (length A + 2) = Some (shotValueLine sh)"
    by (simp_all add: shotLines_def nthOpt_def nth_append)
  note s = shotSection [OF assms(1)]
  have "loopBody u ?L (length A) c k =
      (case parseValues (nthOpt ?L (length A + 1)) (nthOpt ?L (length A + 2)) of
         Inl e \<Rightarrow> Inl e
       | Inr v \<Rightarrow>
           Inr (Continue (length A + 3)
                 (c\<lparr>shots := shots c @ [decodeShot (u k) (parseIntVal (showNat j)) v]\<rparr>)
                 (k + 1)))"
    by (rule loopBody_shot) (simp_all only: l s not_False_eq_True)
  then have "loopBody u ?L (length A) c k =
      Inr (Continue (length A + 3)
        (c\<lparr>shots := shots c @ [decodeShot (u k) (Fin (of_nat j)) v]\<rparr>) (k + 1))"
    by (simp only: l assms(2) parseIntVal_showNat [OF assms(1)] sum.case)
  then have "parseLoop u ?L (length A) c k = parseLoop u ?L (length A + 3)
      (c\<lparr>shots := shots c @ [decodeShot (u k) (Fin (of_nat j)) v]\<rparr>) (k + 1)"
    by (intro parseLoop_step) (simp_all add: shotLines_def)
  then show "parseLoop u ?L (length A) c k = parseLoop u ?L (length A + length (shotLines j sh))
      (c\<lparr>shots := shots c @ [decodeShot (u k) (Fin (of_nat j)) v]\<rparr>) (k + 1)"
    by (simp add: shotLines_def numeral_3_eq_3)
qed

lemma oddCinema_header:
  "cinemaValueLine oddCinema = cinemaValueLine sampleCinema"
  by (simp add: cinemaValueLine_def oddCinema_def sampleCinema_def)

lemma oddCinema_loop:
  "parseLoop u (exportedLines oddCinema) 0 emptyCinema 0 =
     Inr ((decodedCinema u sampleCinema)
            \<lparr> shots :=
                [\<lparr> sh_id = u 0, sh_index = Fin 0, sh_name = ''a'', sh_nextShot = Fin 0,
                   sh_skipShot = Fin 0, sh_maxTime = Fin 10, sh_time = Fin 0 \<rparr>,
                 \<lparr> sh_id = u 1, sh_index = Fin 1, sh_name = ''Outro'', sh_nextShot = Fin 1,
                   sh_skipShot = Fin 1, sh_maxTime = Fin 0, sh_time = Fin 0 \<rparr>] \<rparr>,
          length (exportedLines oddCinema), 6)"
proof -
  let ?a = "\<lparr> sh_id = u 0, sh_index = Fin 0, sh_name = ''a'', sh_nextShot = Fin 0,
              sh_skipShot = Fin 0, sh_maxTime = Fin 10, sh_time = Fin 0 \<rparr>"
  let ?b = "\<lparr> sh_id = u 1, sh_index = Fin 1, sh_name = ''Outro'', sh_nextShot = Fin 1,
              sh_skipShot = Fin 1, sh_maxTime = Fin 0, sh_time = Fin 0 \<rparr>"
  define c1 where "c1 = emptyCinema
      \<lparr> guid := guid sampleCinema, objName := objName sampleCinema,
        duration := round6 (duration sampleCinema),
        properties := decodedProperties (properties sampleCinema) \<rparr>"
  obtain v where v: "parseValues (Some (shotSchemaLine 0)) (Some (shotValueLine quoteShot)) = Inr v"
    "decodeShot (u 0) (Fin 0) v = ?a"
    using quoteShot_decode [of "u 0"] by blast
  obtain w where w: "parseValues (Some (shotSchemaLine 1)) (Some (shotValueLine nanShot)) = Inr w"
    "decodeShot (u 1) (Fin 1) w = ?b"
    using nanShot_decode [of "u 1"] by blast
  have s1: "segment u [''[ Cinema : 1 ]'', cinemaSchemaLine, cinemaValueLine oddCinema]
      emptyCinema 0 c1 0"
    unfolding c1_def oddCinema_header
    using encodable_sampleCinema guid_emptyCinema by (rule segment_header)
  have a: "segment u (shotLines 0 quoteShot) c1 0 (c1\<lparr> shots := shots c1 @ [?a] \<rparr>) (0 + 1)"
    using segment_shot_values [of 0 quoteShot v u c1 0] v by simp
  have b: "segment u (shotLines 1 nanShot) (c1\<lparr> shots := shots c1 @ [?a] \<rparr>) 1
      (c1\<lparr> shots := shots c1 @ [?a] \<rparr>\<lparr> shots := shots (c1\<lparr> shots := shots c1 @ [?a] \<rparr>) @ [?b] \<rparr>)
      (1 + 1)"
    using segment_shot_values [of 1 nanShot w u "c1\<lparr> shots := shots c1 @ [?a] \<rparr>" 1] w by simp
  have "segment u (shotLines 0 quoteShot @ shotLines 1 nanShot) c1 0
      (c1\<lparr> shots := shots c1 @ [?a] \<rparr>\<lparr> shots := shots (c1\<lparr> shots := shots c1 @ [?a] \<rparr>) @ [?b] \<rparr>)
      (1 + 1)"
    using a b by (simp add: segment_append)
  then have s2: "segment u
      (concat (map (\<lambda>(i, x). shotLines i x) (enumerate 0 (shots oddCinema)))) c1 0
      (c1\<lparr> shots := [?a, ?b] \<rparr>) 2"
    by (simp add: oddCinema_def c1_def emptyCinema_def numeral_2_eq_2)
  have enc: "list_all encodableSyncPoint (syncPoints oddCinema)"
    "length (syncPoints oddCinema) < 2 ^ 32"
    "list_all encodableAction (actions oddCinema)" "length (actions oddCinema) < 2 ^ 32"
    "list_all participantToken (participants oddCinema)"
    "length (participants oddCinema) < 2 ^ 32"
    "list_all encodableCameraPath (cameraPaths oddCinema)"
    using encodable_sampleCinema by (simp_all add: encodable_def oddCinema_def)
  show ?thesis
    using segment_whole [OF s1 s2 enc]
    by (simp add: c1_def decodedCinema_def emptyCinema_def oddCinema_def sampleCinema_def
        eval_nat_numeral)
qed

lemma schema_no_newline: "newline \<notin> set cinemaSchemaLine"
  using header_no_newline [OF encodable_sampleCinema] by simp

lemma lines_of_export_shots:
  assumes h: "newline \<notin> set (cinemaValueLine c)"
    and s: "\<forall>l \<in> set (concat (map (\<lambda>(i, sh). shotLines i sh) (enumerate 0 (shots c)))).
              newline \<notin> set l"
    and t: "list_all encodableSyncPoint (syncPoints c)" "length (syncPoints c) < 2 ^ 32"
      "list_all encodableAction (actions c)" "length (actions c) < 2 ^ 32"
      "list_all participantToken (participants c)" "length (participants c) < 2 ^ 32"
      "list_all encodableCameraPath (cameraPaths c)"
  shows "splitOn newline (exportCinema c) = exportedLines c"
proof -
  have ne: "exportCinemaLines c \<noteq> []" by (simp add: exportCinemaLines_def)
  have h: "concat (map (splitOn newline) [''[ Cinema : 1 ]'', cinemaSchemaLine, cinemaValueLine c])
      = [''[ Cinema : 1 ]'', cinemaSchemaLine, cinemaValueLine c]"
    using h schema_no_newline by (simp add: splitOn_none) (simp add: newline_def)
  have p: "concat (map (splitOn newline) [participantsSectionLine c, '' { PGuid:g           }''])
      = [participantsSectionLine c, '' { PGuid:g           }'']"
    using participantsSection_no_newline [of c] t(6)
    by (simp add: splitOn_none) (simp add: newline_def)
  have f: "concat (map (splitOn newline)
        [''[ Action-1 : 1 ]'', actionMinus1SchemaLine, actionMinusValueLine,
         ''[ Action-2 : 1 ]'', actionMinus2SchemaLine, actionMinusValueLine]) = fixedActionLines"
    using fixed_no_newline concat_splitOn_none [of fixedActionLines newline]
    by (simp add: fixedActionLines_def)
  have e: "concat (map (splitOn newline) [[]]) = [[]]"
    "concat (map (splitOn newline) [[], []]) = [[], []]"
    by simp_all
  have sh: "concat (map (splitOn newline)
           (concat (map (\<lambda>(i, sh). [shotSectionLine i, shotSchemaLine i, shotValueLine sh])
              (enumerate 0 (shots c)))))
         = concat (map (\<lambda>(i, sh). shotLines i sh) (enumerate 0 (shots c)))"
    using s concat_splitOn_none by (simp add: shotLines_def [abs_def])
  note parts = sh syncPoints_split [OF t(1,2)]
    actions_split [OF t(3,4)] cameraPaths_split [OF t(7)]
    participants_split [OF t(5)]
  have "splitOn newline (exportCinema c) = concat (map (splitOn newline) (exportCinemaLines c))"
    using ne by (simp add: exportCinema_def splitOn_join)
  also have "\<dots> = exportedLines c"
    unfolding exportCinemaLines_def exportedLines_def map_append concat_append
    by (simp only: h p f e parts)
  finally show ?thesis .
qed

lemma oddCinema_lines: "splitOn newline (exportCinema oddCinema) = exportedLines oddCinema"
proof (rule lines_of_export_shots)
  show "newline \<notin> set (cinemaValueLine oddCinema)"
    using header_no_newline [OF encodable_sampleCinema] by (simp add: oddCinema_header)
  have i: "intField (Fin 1)" "floatField (Fin 0)" "floatField (Fin 10)" by simp_all
  have n: "formatFloat NaN 0 = ''NaN''"
    by (simp add: formatFloat_def toFixed6_def)
  have "newline \<notin> set (shotValueLine quoteShot)"
    using i by (simp add: shotValueLine_def quoteShot_def chars_eval newline_def dquote_def
        del: numToString.simps)
  moreover have "newline \<notin> set (shotValueLine nanShot)"
    using i by (simp add: shotValueLine_def nanShot_def n formatInt_pad floor_eval chars_eval
        newline_def dquote_def del: numToString.simps)
  moreover have "newline \<notin> set (shotSectionLine j) \<and> newline \<notin> set (shotSchemaLine j)"
    if "j < 2 ^ 32" for j
    using that
    by (simp add: shotSectionLine_def shotSchemaLine_def chars_eval newline_def bslash_def
        del: numToString.simps)
  ultimately show "\<forall>l \<in> set (concat (map (\<lambda>(i, sh). shotLines i sh)
      (enumerate 0 (shots oddCinema)))). newline \<notin> set l"
    by (simp add: oddCinema_def shotLines_def)
qed (use encodable_sampleCinema in \<open>simp_all add: encodable_def oddCinema_def\<close>)

lemma oddCinema_parse:
  "parseCinemaFile u (exportCinema oddCinema) =
     [(decodedCinema u sampleCinema)
        \<lparr> shots :=
            [\<lparr> sh_id = u 0, sh_index = Fin 0, sh_name = ''a'', sh_nextShot = Fin 0,
               sh_skipShot = Fin 0, sh_maxTime = Fin 10, sh_time = Fin 0 \<rparr>,
             \<lparr> sh_id = u 1, sh_index = Fin 1, sh_name = ''Outro'', sh_nextShot = Fin 1,
               sh_skipShot = Fin 1, sh_maxTime = Fin 0, sh_time = Fin 0 \<rparr>] \<rparr>]"
  using fileLoop_whole [OF oddCinema_loop, of u]
  by (simp add: parseCinemaFile_def oddCinema_lines)

lemma round6_finite: "\<exists>q. round6 (Fin p) = Fin q \<and> \<bar>q - p\<bar> \<le> 1 / (2 * 10 ^ 6)"
proof -
  have "round6 (Fin p) =
      Fin ((if p < 0 then - 1 else 1) * of_nat (nat \<lfloor>\<bar>p\<bar> * 10 ^ 6 + 1 / 2\<rfloor>) / 10 ^ 6)"
    by (rule round6.simps)
  then show ?thesis using round6_close by blast
qed

text \<open>C1 (the claim as worded). The record \<open>oddCinema\<close> has two shots, a sync point, two
  actions and a camera path with one keyframe. Decoding its encoding does not give its fields
  back: the name with a double quote comes back cut at the quote, and the fields after it are
  lost (the next shot 1 comes back as 0); the fraction 3/2 in an integer field comes back as 1;
  NaN in a float field comes back as 0; the identifiers are the ones drawn by the decoder; the
  stored index 5 of the sync point comes back as its position 0.\<close>

theorem round_trip_loses_fields:
  "map (map sh_name \<circ> shots) (parseCinemaFile sampleUuids (exportCinema oddCinema))
     = [[''a'', ''Outro'']]
   \<and> map sh_name (shots oddCinema) = [[CHR ''a'', CHR 0x22, CHR '' '', CHR ''b''], ''Outro'']
   \<and> map (map sh_nextShot \<circ> shots) (parseCinemaFile sampleUuids (exportCinema oddCinema))
     = [[Fin 0, Fin 1]]
   \<and> map sh_nextShot (shots oddCinema) = [Fin 1, Fin (3 / 2)]
   \<and> map (map sh_maxTime \<circ> shots) (parseCinemaFile sampleUuids (exportCinema oddCinema))
     = [[Fin 10, Fin 0]]
   \<and> map sh_maxTime (shots oddCinema) = [Fin 10, NaN]
   \<and> map (map sh_id \<circ> shots) (parseCinemaFile sampleUuids (exportCinema oddCinema))
     = [[''uuid-0'', ''uuid-1'']]
   \<and> map sh_id (shots oddCinema) = [''s'', ''t'']
   \<and> map (map sp_index \<circ> syncPoints) (parseCinemaFile sampleUuids (exportCinema oddCinema))
     = [[Fin 0]]
   \<and> map sp_index (syncPoints oddCinema) = [Fin 5]
   \<and> length (shots oddCinema) = 2 \<and> length (syncPoints oddCinema) = 1
   \<and> map (length \<circ> cp_keyframes) (cameraPaths oddCinema) = [1]"
  by (simp add: oddCinema_parse decodedCinema_def decodedSyncPoint_def)
     (simp add: oddCinema_def sampleCinema_def quoteShot_def nanShot_def staleSyncPoint_def
        sampleCameraPath_def sampleUuids_def showNat_eval dquote_def)

text \<open>C1 (as amended). For every record that the format can carry, decoding its encoding returns
  exactly one record: the original with every float field rounded to six fractional digits,
  every \<open>id\<close> replaced by the identifier drawn for the element (in the order shots, sync
  points, actions, camera paths) and every \<open>index\<close> replaced by the element's position; every
  other integer or string field is the original's. The rounding moves a float field by at most
  \<open>5 * 10\<^sup>-\<^sup>7\<close>, which is within the tolerance \<open>10\<^sup>-\<^sup>6\<close>. The format can carry a record when
  every quoted string is free of double quotes and line feeds, every identifier written without
  quotes is one token (not empty, without white space or double quote; a participant,
  moreover, not starting with a bracket or brace), every integer field holds an integer and
  every float field a finite number, both below \<open>10\<^sup>2\<^sup>1\<close> in magnitude, every camera path has
  at least one keyframe and every collection fewer than \<open>2\<^sup>3\<^sup>2\<close> elements. The collections of
  shots, sync points and camera paths may be empty.\<close>

theorem export_parse_round_trip:
  assumes "encodable r"
  shows "parseCinemaFile uuids (exportCinema r) = [decodedCinema uuids r]
    \<and> (\<forall>x. floatField x \<longrightarrow>
          (\<exists>p q. x = Fin p \<and> round6 x = Fin q \<and> \<bar>q - p\<bar> \<le> 1 / (2 * 10 ^ 6)))"
proof
  show "parseCinemaFile uuids (exportCinema r) = [decodedCinema uuids r]"
    using assms by (rule export_parse)
  show "\<forall>x. floatField x \<longrightarrow>
          (\<exists>p q. x = Fin p \<and> round6 x = Fin q \<and> \<bar>q - p\<bar> \<le> 1 / (2 * 10 ^ 6))"
  proof (intro allI impI)
    fix x
    assume "floatField x"
    then obtain p where "x = Fin p" by (cases x) simp_all
    then show "\<exists>p q. x = Fin p \<and> round6 x = Fin q \<and> \<bar>q - p\<bar> \<le> 1 / (2 * 10 ^ 6)"
      using round6_finite [of p] by blast
  qed
qed

theorem export_parse_round_trip_witness:
  "encodable sampleCinema
   \<and> parseCinemaFile sampleUuids (exportCinema sampleCinema) =
       [sampleCinema
          \<lparr> shots :=
              [sampleShot\<lparr> sh_id := ''uuid-0'', sh_index := Fin 0,
                           sh_maxTime := Fin (1234568 / 1000000) \<rparr>,
               sampleShot\<lparr> sh_id := ''uuid-1'', sh_index := Fin 1,
                           sh_maxTime := Fin (1234568 / 1000000) \<rparr>],
            syncPoints := [staleSyncPoint\<lparr> sp_id := ''uuid-2'', sp_index := Fin 0 \<rparr>],
            actions :=
              [CameraAction (sampleBase\<lparr> ac_id := ''uuid-3'', ac_index := Fin 0 \<rparr>) sampleCamera,
               DialogAction (sampleBase\<lparr> ac_id := ''uuid-4'', ac_index := Fin 1 \<rparr>) sampleDialog],
            cameraPaths := [sampleCameraPath\<lparr> cp_id := ''uuid-5'' \<rparr>] \<rparr>]
   \<and> sh_maxTime sampleShot = Fin (12345678 / 10000000)
   \<and> floatField (Fin (12345678 / 10000000))
   \<and> round6 (Fin (12345678 / 10000000)) = Fin (1234568 / 1000000)
   \<and> \<bar>1234568 / 1000000 - 12345678 / 10000000 :: rat\<bar> \<le> 1 / (2 * 10 ^ 6)"
proof -
  have r: "round6 (Fin (12345678 / 10000000)) = Fin (1234568 / 1000000)"
    by (simp add: floor_eval)
  have "sampleUuids 0 = ''uuid-0''" "sampleUuids 1 = ''uuid-1''" "sampleUuids 2 = ''uuid-2''"
    "sampleUuids 3 = ''uuid-3''" "sampleUuids 4 = ''uuid-4''" "sampleUuids 5 = ''uuid-5''"
    by (simp_all add: sampleUuids_def showNat_eval)
  then have u: "sampleUuids 0 = ''uuid-0''" "sampleUuids (Suc 0) = ''uuid-1''"
    "sampleUuids (Suc (Suc 0)) = ''uuid-2''" "sampleUuids (Suc (Suc (Suc 0))) = ''uuid-3''"
    "sampleUuids (Suc (Suc (Suc (Suc 0)))) = ''uuid-4''"
    "sampleUuids (Suc (Suc (Suc (Suc (Suc 0))))) = ''uuid-5''"
    by (simp_all add: eval_nat_numeral)
  have "decodedCinema sampleUuids sampleCinema =
      sampleCinema
          \<lparr> shots :=
              [sampleShot\<lparr> sh_id := ''uuid-0'', sh_index := Fin 0,
                           sh_maxTime := Fin (1234568 / 1000000) \<rparr>,
               sampleShot\<lparr> sh_id := ''uuid-1'', sh_index := Fin 1,
                           sh_maxTime := Fin (1234568 / 1000000) \<rparr>],
            syncPoints := [staleSyncPoint\<lparr> sp_id := ''uuid-2'', sp_index := Fin 0 \<rparr>],
            actions :=
              [CameraAction (sampleBase\<lparr> ac_id := ''uuid-3'', ac_index := Fin 0 \<rparr>) sampleCamera,
               DialogAction (sampleBase\<lparr> ac_id := ''uuid-4'', ac_index := Fin 1 \<rparr>) sampleDialog],
            cameraPaths := [sampleCameraPath\<lparr> cp_id := ''uuid-5'' \<rparr>] \<rparr>"
    using r u
    by (simp add: decodedCinema_def sampleCinema_def emptyCinema_def decodedProperties_def
        createDefaultCinemaProperties_def round3_def round6s_def decodedShot_def sampleShot_def
        decodedSyncPoint_def staleSyncPoint_def decodedCameraPath_def sampleCameraPath_def
        decodedAction_def decodedBase_def sampleBase_def sampleCamera_def floor_eval)
  then show ?thesis
    using export_parse_round_trip [of sampleCinema sampleUuids] encodable_sampleCinema r
    by (simp add: sampleShot_def)
qed


end
